theory Spec2Isabelle
  imports Main
begin

section \<open>Data model: the tables the claim subsystem reads and writes\<close>

text \<open>
  The program is a set of SQL migrations (PL/pgSQL trigger functions, row-level-security
  policies, unique indexes). A table is the list of its rows, a row is a record of the
  columns the functions mention, a UUID is a number, \<open>NOW()\<close> is a parameter.
  A nullable value is an \<open>option\<close> (\<open>None\<close> is SQL's NULL); a comparison with
  NULL is never true, so \<open>Some c = x\<close> is "column \<open>c\<close> equals \<open>x\<close>" for a column
  that is never NULL and a parameter \<open>x\<close> that may be. Columns that no function reads
  (\<open>created_at\<close>, \<open>updated_at\<close>, \<open>is_read\<close>) are left out.
\<close>

type_synonym uuid = nat
type_synonym timestamptz = nat

datatype claim_status = Active | Cancelled | Fulfilled

datatype split_claim_status = Pending | Confirmed

datatype ownership_flag_status = Flag_pending | Flag_confirmed | Flag_denied

datatype notification_type =
    Split_initiated | Split_joined | Split_left | Split_confirmed | Split_cancelled
  | Gift_received | Gift_marked_given
  | Item_flagged_already_owned | Flag_confirmed_note | Flag_denied_note

record wishlist =
  w_id :: uuid
  w_user_id :: uuid
  w_privacy :: string
  w_name :: string

record wishlist_item =
  wi_id :: uuid
  wi_wishlist_id :: uuid
  wi_title :: string

record friendship =
  f_requester_id :: uuid
  f_addressee_id :: uuid
  f_status :: string

record item_claim =
  ic_id :: uuid
  ic_item_id :: uuid
  ic_claimed_by :: uuid
  ic_status :: claim_status
  ic_fulfilled_at :: "timestamptz option"

record split_claim =
  sc_id :: uuid
  sc_item_id :: uuid
  sc_initiated_by :: uuid
  sc_target_participants :: int
  sc_status :: split_claim_status
  sc_claim_status :: claim_status
  sc_confirmed_at :: "timestamptz option"
  sc_fulfilled_at :: "timestamptz option"

record split_claim_participant =
  scp_split_claim_id :: uuid
  scp_user_id :: uuid

record item_ownership_flag =
  fl_id :: uuid
  fl_item_id :: uuid
  fl_flagged_by :: uuid
  fl_status :: ownership_flag_status
  fl_resolved_at :: "timestamptz option"

record notification =
  n_user_id :: uuid
  n_type :: notification_type
  n_title :: string
  n_message :: string
  n_actor_id :: "uuid option"
  n_wishlist_id :: "uuid option"
  n_item_id :: "uuid option"
  n_split_claim_id :: "uuid option"
  n_ownership_flag_id :: "uuid option"

record db =
  wishlists :: "wishlist list"
  wishlist_items :: "wishlist_item list"
  friendships :: "friendship list"
  wishlist_selected_friends :: "(uuid \<times> uuid) list"
  profiles :: "(uuid \<times> string option) list"
  item_claims :: "item_claim list"
  split_claims :: "split_claim list"
  split_claim_participants :: "split_claim_participant list"
  item_ownership_flags :: "item_ownership_flag list"
  notifications :: "notification list"

text \<open>\<open>SELECT ... INTO r\<close>: the first row of the result, NULL when there is none.\<close>

definition select_into :: "'a list \<Rightarrow> 'a option" where
  "select_into rows = (case rows of [] \<Rightarrow> None | r # _ \<Rightarrow> Some r)"

section \<open>Visibility: \<open>are_friends\<close> and \<open>can_view_wishlist\<close>\<close>

definition are_friends :: "db \<Rightarrow> uuid option \<Rightarrow> uuid option \<Rightarrow> bool" where
  "are_friends s user1_id user2_id =
     list_ex (\<lambda>f. f_status f = ''accepted'' \<and>
                  ((Some (f_requester_id f) = user1_id \<and> Some (f_addressee_id f) = user2_id) \<or>
                   (Some (f_requester_id f) = user2_id \<and> Some (f_addressee_id f) = user1_id)))
       (friendships s)"

text \<open>
  \<open>wishlist_record\<close> is the selected row, or a row of NULLs when no wishlist has the id:
  then \<open>wishlist_record.user_id = viewer_id\<close> is NULL, the \<open>IF\<close> is not taken, no
  \<open>WHEN\<close> of the \<open>CASE\<close> matches the NULL privacy, and the \<open>ELSE\<close> asks
  \<open>are_friends(NULL, viewer_id)\<close>.
\<close>

definition can_view_wishlist :: "db \<Rightarrow> uuid option \<Rightarrow> uuid option \<Rightarrow> bool" where
  "can_view_wishlist s wishlist_id viewer_id =
     (let wishlist_record = select_into (filter (\<lambda>w. Some (w_id w) = wishlist_id) (wishlists s));
          record_user_id = map_option w_user_id wishlist_record;
          record_privacy = map_option w_privacy wishlist_record
      in if record_user_id \<noteq> None \<and> record_user_id = viewer_id then True
         else if record_privacy = Some ''friends'' then
           are_friends s record_user_id viewer_id
         else if record_privacy = Some ''selected_friends'' then
           are_friends s record_user_id viewer_id \<and>
           list_ex (\<lambda>(wl, friend_id). Some wl = wishlist_id \<and> Some friend_id = viewer_id)
             (wishlist_selected_friends s)
         else if record_privacy = Some ''private'' then False
         else are_friends s record_user_id viewer_id)"

section \<open>Errors, policies and helpers shared by the operations\<close>

text \<open>
  What the store reports: an exception raised by a trigger function, a new row refused by
  a row-level-security policy, a unique index or key violated, NULL stored in a column
  that forbids it. The last four are the error kinds of the operations' callers.
\<close>

datatype error =
    Raise_exception string
  | Rls_violation
  | Unique_violation string
  | Not_null_violation string
  | NotFound | Forbidden | Conflict | InvalidArgument

definition dq :: string where
  "dq = [CHR 0x22]"

definition coalesce :: "'a option \<Rightarrow> 'a \<Rightarrow> 'a" where
  "coalesce x d = (case x of None \<Rightarrow> d | Some v \<Rightarrow> v)"

text \<open>
  \<open>SELECT display_name INTO n FROM profiles WHERE id = u\<close>: NULL when the user has no
  row, or no display name.
\<close>

definition display_name :: "db \<Rightarrow> uuid \<Rightarrow> string option" where
  "display_name s u = (case map_of (profiles s) u of None \<Rightarrow> None | Some n \<Rightarrow> n)"

text \<open>
  The subquery every INSERT policy of the claim tables repeats: the item exists, its
  wishlist belongs to somebody else, and \<open>can_view_wishlist\<close> lets the caller see it.
\<close>

definition viewable_item_of_other :: "db \<Rightarrow> uuid \<Rightarrow> uuid \<Rightarrow> bool" where
  "viewable_item_of_other s item uid =
     list_ex (\<lambda>wi. wi_id wi = item \<and>
                list_ex (\<lambda>w. w_id w = wi_wishlist_id wi \<and> w_user_id w \<noteq> uid \<and>
                              can_view_wishlist s (Some (w_id w)) (Some uid))
                  (wishlists s))
       (wishlist_items s)"

record item_info =
  item_title :: string
  info_wishlist_id :: uuid
  wishlist_name :: string
  wishlist_owner_id :: uuid

definition get_split_claim_item_info :: "db \<Rightarrow> uuid \<Rightarrow> item_info list" where
  "get_split_claim_item_info s p_item_id =
     concat (map (\<lambda>wi. map (\<lambda>w. \<lparr>item_title = wi_title wi, info_wishlist_id = w_id w,
                                  wishlist_name = w_name w, wishlist_owner_id = w_user_id w\<rparr>)
                          (filter (\<lambda>w. w_id w = wi_wishlist_id wi) (wishlists s)))
                 (filter (\<lambda>wi. wi_id wi = p_item_id) (wishlist_items s)))"

definition notify_split_participants ::
  "db \<Rightarrow> uuid \<Rightarrow> notification_type \<Rightarrow> string \<Rightarrow> string \<Rightarrow> uuid \<Rightarrow> uuid option \<Rightarrow>
   uuid option \<Rightarrow> uuid option \<Rightarrow> db" where
  "notify_split_participants s p_split_claim_id p_type p_title p_message p_actor_id
       p_exclude_user_id p_item_id p_wishlist_id =
     s\<lparr>notifications := notifications s @
         map (\<lambda>p. \<lparr>n_user_id = scp_user_id p, n_type = p_type, n_title = p_title,
                    n_message = p_message, n_actor_id = Some p_actor_id,
                    n_wishlist_id = p_wishlist_id, n_item_id = p_item_id,
                    n_split_claim_id = Some p_split_claim_id, n_ownership_flag_id = None\<rparr>)
           (filter (\<lambda>p. scp_split_claim_id p = p_split_claim_id \<and>
                         (case p_exclude_user_id of None \<Rightarrow> True
                          | Some e \<Rightarrow> scp_user_id p \<noteq> e))
              (split_claim_participants s))\<rparr>"

section \<open>Solo claims: table \<open>item_claims\<close>\<close>

definition prevent_solo_on_split_item :: "db \<Rightarrow> item_claim \<Rightarrow> error option" where
  "prevent_solo_on_split_item s NEW =
     (if list_ex (\<lambda>sc. sc_item_id sc = ic_item_id NEW) (split_claims s)
      then Some (Raise_exception ''Item already has a split claim in progress'')
      else None)"

text \<open>Policy "Users can claim items on viewable wishlists" (FOR INSERT, WITH CHECK).\<close>

definition users_can_claim_items_on_viewable_wishlists :: "db \<Rightarrow> uuid \<Rightarrow> item_claim \<Rightarrow> bool" where
  "users_can_claim_items_on_viewable_wishlists s uid NEW =
     (uid = ic_claimed_by NEW \<and> viewable_item_of_other s (ic_item_id NEW) uid)"

text \<open>
  \<open>INSERT INTO item_claims\<close> by the user \<open>uid\<close>: the row trigger
  \<open>prevent_solo_on_split_item\<close>, the INSERT policy, the primary key, and the partial
  unique index \<open>idx_item_claims_item_id_active\<close> (on \<open>item_id\<close>, for the rows
  \<open>WHERE status = 'active'\<close>).
\<close>

definition insert_item_claim :: "db \<Rightarrow> uuid \<Rightarrow> item_claim \<Rightarrow> error + db" where
  "insert_item_claim s uid NEW =
     (case prevent_solo_on_split_item s NEW of
        Some e \<Rightarrow> Inl e
      | None \<Rightarrow>
          if \<not> users_can_claim_items_on_viewable_wishlists s uid NEW then Inl Rls_violation
          else if list_ex (\<lambda>c. ic_id c = ic_id NEW) (item_claims s)
            then Inl (Unique_violation ''item_claims_pkey'')
          else if ic_status NEW = Active \<and>
                  list_ex (\<lambda>c. ic_item_id c = ic_item_id NEW \<and> ic_status c = Active) (item_claims s)
            then Inl (Unique_violation ''idx_item_claims_item_id_active'')
          else Inr (s\<lparr>item_claims := item_claims s @ [NEW]\<rparr>))"

text \<open>
  Modelled from the spec: the server action \<open>createSoloClaim\<close> is not among the source
  files. By the spec it inserts the claim as the claimer with \<open>status = active\<close>, and
  the caller reports a failure of the store as \<open>Conflict\<close>. Every check is the store's.
\<close>

definition createSoloClaim :: "db \<Rightarrow> uuid \<Rightarrow> uuid \<Rightarrow> uuid \<Rightarrow> error + db" where
  "createSoloClaim s item_id claimer_id new_id =
     (case insert_item_claim s claimer_id
             \<lparr>ic_id = new_id, ic_item_id = item_id, ic_claimed_by = claimer_id,
              ic_status = Active, ic_fulfilled_at = None\<rparr> of
        Inl e \<Rightarrow> Inl Conflict
      | Inr s' \<Rightarrow> Inr s')"

text \<open>
  Modelled from the spec: \<open>cancelSoloClaim\<close> (no source file updates
  \<open>item_claims.status\<close> to cancelled). By the spec only the claimer may cancel, the claim
  goes from active to cancelled, and the row is kept.
\<close>

definition cancelSoloClaim :: "db \<Rightarrow> uuid \<Rightarrow> uuid \<Rightarrow> error + db" where
  "cancelSoloClaim s claim_id caller_id =
     (case select_into (filter (\<lambda>c. ic_id c = claim_id) (item_claims s)) of
        None \<Rightarrow> Inl NotFound
      | Some c \<Rightarrow>
          if ic_claimed_by c \<noteq> caller_id then Inl Forbidden
          else if ic_status c \<noteq> Active then Inl Conflict
          else Inr (s\<lparr>item_claims :=
                         map (\<lambda>c. if ic_id c = claim_id then c\<lparr>ic_status := Cancelled\<rparr> else c)
                           (item_claims s)\<rparr>))"

text \<open>
  \<open>DELETE FROM item_claims WHERE id = claim_id\<close> by the user \<open>uid\<close>, under the policy
  "Users can unclaim their own claims" (\<open>USING (auth.uid() = claimed_by)\<close>): a row of
  somebody else is not visible to the statement and stays.
\<close>

definition delete_item_claim :: "db \<Rightarrow> uuid \<Rightarrow> uuid \<Rightarrow> db" where
  "delete_item_claim s uid claim_id =
     s\<lparr>item_claims := filter (\<lambda>c. \<not> (ic_id c = claim_id \<and> uid = ic_claimed_by c)) (item_claims s)\<rparr>"

section \<open>Split claims: tables \<open>split_claims\<close> and \<open>split_claim_participants\<close>\<close>

definition prevent_split_on_claimed_item :: "db \<Rightarrow> split_claim \<Rightarrow> error option" where
  "prevent_split_on_claimed_item s NEW =
     (if list_ex (\<lambda>c. ic_item_id c = sc_item_id NEW) (item_claims s)
      then Some (Raise_exception ''Item already has a solo claim'')
      else None)"

text \<open>Policy "Users can initiate split claims on viewable wishlists" (FOR INSERT).\<close>

definition users_can_initiate_split_claims_on_viewable_wishlists ::
  "db \<Rightarrow> uuid \<Rightarrow> split_claim \<Rightarrow> bool" where
  "users_can_initiate_split_claims_on_viewable_wishlists s uid NEW =
     (uid = sc_initiated_by NEW \<and> viewable_item_of_other s (sc_item_id NEW) uid)"

text \<open>
  The friend on the other side of a friendship row:
  \<open>CASE WHEN f.requester_id = NEW.initiated_by THEN f.addressee_id ELSE f.requester_id END\<close>.
\<close>

definition friend_id :: "uuid \<Rightarrow> friendship \<Rightarrow> uuid" where
  "friend_id initiated_by f =
     (if f_requester_id f = initiated_by then f_addressee_id f else f_requester_id f)"

text \<open>
  Trigger \<open>on_split_claim_initiated\<close> (AFTER INSERT ON split_claims). When the item or
  its wishlist is missing, \<open>item_info.wishlist_owner_id\<close> is NULL, \<open>\<noteq>\<close> is not true
  for any friend, and no row is inserted.
\<close>

definition create_split_initiated_notification :: "db \<Rightarrow> split_claim \<Rightarrow> db" where
  "create_split_initiated_notification s NEW =
     (let initiator_name = display_name s (sc_initiated_by NEW);
          item_info = select_into (get_split_claim_item_info s (sc_item_id NEW))
      in s\<lparr>notifications := notifications s @
             map (\<lambda>f. \<lparr>n_user_id = friend_id (sc_initiated_by NEW) f,
                        n_type = Split_initiated,
                        n_title = ''Split Gift Started'',
                        n_message = coalesce initiator_name ''Someone'' @ '' started a split for '' @ dq @
                                    coalesce (map_option item_title item_info) ''an item'' @ dq,
                        n_actor_id = Some (sc_initiated_by NEW),
                        n_wishlist_id = map_option info_wishlist_id item_info,
                        n_item_id = Some (sc_item_id NEW),
                        n_split_claim_id = Some (sc_id NEW),
                        n_ownership_flag_id = None\<rparr>)
               (filter (\<lambda>f. f_status f = ''accepted'' \<and>
                             (f_requester_id f = sc_initiated_by NEW \<or>
                              f_addressee_id f = sc_initiated_by NEW) \<and>
                             (case map_option wishlist_owner_id item_info of
                                None \<Rightarrow> False
                              | Some owner \<Rightarrow> friend_id (sc_initiated_by NEW) f \<noteq> owner))
                  (friendships s))\<rparr>)"

text \<open>
  \<open>INSERT INTO split_claims\<close> by the user \<open>uid\<close>: the row trigger
  \<open>prevent_split_on_claimed_item\<close>, the INSERT policy, the primary key, the partial
  unique index \<open>idx_split_claims_item_id_active\<close> (on \<open>item_id\<close>, for the rows
  \<open>WHERE claim_status = 'active'\<close>), then the AFTER INSERT trigger.
\<close>

definition insert_split_claim :: "db \<Rightarrow> uuid \<Rightarrow> split_claim \<Rightarrow> error + db" where
  "insert_split_claim s uid NEW =
     (case prevent_split_on_claimed_item s NEW of
        Some e \<Rightarrow> Inl e
      | None \<Rightarrow>
          if \<not> users_can_initiate_split_claims_on_viewable_wishlists s uid NEW then Inl Rls_violation
          else if list_ex (\<lambda>sc. sc_id sc = sc_id NEW) (split_claims s)
            then Inl (Unique_violation ''split_claims_pkey'')
          else if sc_claim_status NEW = Active \<and>
                  list_ex (\<lambda>sc. sc_item_id sc = sc_item_id NEW \<and> sc_claim_status sc = Active)
                    (split_claims s)
            then Inl (Unique_violation ''idx_split_claims_item_id_active'')
          else Inr (create_split_initiated_notification
                      (s\<lparr>split_claims := split_claims s @ [NEW]\<rparr>) NEW))"

text \<open>Trigger \<open>on_split_claim_confirmed\<close> (AFTER UPDATE ON split_claims).\<close>

definition create_split_confirmed_notification :: "db \<Rightarrow> split_claim \<Rightarrow> split_claim \<Rightarrow> db" where
  "create_split_confirmed_notification s OLD NEW =
     (if sc_status OLD = Pending \<and> sc_status NEW = Confirmed then
        (let item_info = select_into (get_split_claim_item_info s (sc_item_id NEW))
         in notify_split_participants s (sc_id NEW) Split_confirmed ''Split Confirmed!''
              (''The split for '' @ dq @ coalesce (map_option item_title item_info) ''an item'' @ dq @
               '' is now confirmed'')
              (sc_initiated_by NEW) None (Some (sc_item_id NEW))
              (map_option info_wishlist_id item_info))
      else s)"

text \<open>
  The trigger function on \<open>AFTER INSERT ON split_claim_participants\<close> that confirms a
  split. Its \<open>UPDATE split_claims SET status = 'confirmed', confirmed_at = NOW() WHERE
  id = NEW.split_claim_id\<close> fires \<open>on_split_claim_confirmed\<close> for the row it changes.
  When no split claim has the id, \<open>target\<close> and \<open>current_status\<close> are NULL and the
  \<open>IF\<close> is not taken.
\<close>

definition check_split_claim_completion :: "db \<Rightarrow> split_claim_participant \<Rightarrow> timestamptz \<Rightarrow> db" where
  "check_split_claim_completion s NEW now =
     (let participant_count =
            int (length (filter (\<lambda>p. scp_split_claim_id p = scp_split_claim_id NEW)
                           (split_claim_participants s)));
          found = select_into (filter (\<lambda>sc. sc_id sc = scp_split_claim_id NEW) (split_claims s))
      in case found of
           None \<Rightarrow> s
         | Some sc \<Rightarrow>
             if participant_count \<ge> sc_target_participants sc \<and> sc_status sc = Pending then
               foldl (\<lambda>st old. create_split_confirmed_notification st old
                                  (old\<lparr>sc_status := Confirmed, sc_confirmed_at := Some now\<rparr>))
                 (s\<lparr>split_claims :=
                      map (\<lambda>r. if sc_id r = scp_split_claim_id NEW
                                then r\<lparr>sc_status := Confirmed, sc_confirmed_at := Some now\<rparr> else r)
                        (split_claims s)\<rparr>)
                 (filter (\<lambda>r. sc_id r = scp_split_claim_id NEW) (split_claims s))
             else s)"

text \<open>Trigger \<open>on_split_participant_joined\<close> (AFTER INSERT ON split_claim_participants).\<close>

definition create_split_joined_notification :: "db \<Rightarrow> split_claim_participant \<Rightarrow> db" where
  "create_split_joined_notification s NEW =
     (let split_info = select_into (filter (\<lambda>sc. sc_id sc = scp_split_claim_id NEW) (split_claims s))
      in if map_option sc_initiated_by split_info = Some (scp_user_id NEW) then s
         else
           (let joiner_name = display_name s (scp_user_id NEW);
                item_info = (case split_info of None \<Rightarrow> None
                             | Some si \<Rightarrow> select_into (get_split_claim_item_info s (sc_item_id si)))
            in notify_split_participants s (scp_split_claim_id NEW) Split_joined
                 ''Someone Joined Split''
                 (coalesce joiner_name ''Someone'' @ '' joined the split for '' @ dq @
                  coalesce (map_option item_title item_info) ''an item'' @ dq)
                 (scp_user_id NEW) (Some (scp_user_id NEW))
                 (map_option sc_item_id split_info) (map_option info_wishlist_id item_info)))"

text \<open>Policy "Users can join split claims" (FOR INSERT).\<close>

definition users_can_join_split_claims :: "db \<Rightarrow> uuid \<Rightarrow> split_claim_participant \<Rightarrow> bool" where
  "users_can_join_split_claims s uid NEW =
     (uid = scp_user_id NEW \<and>
      list_ex (\<lambda>sc. sc_id sc = scp_split_claim_id NEW \<and>
                    viewable_item_of_other s (sc_item_id sc) uid \<and> sc_status sc = Pending)
        (split_claims s))"

text \<open>
  \<open>INSERT INTO split_claim_participants\<close> by the user \<open>uid\<close>: the INSERT policy, the
  key \<open>(split_claim_id, user_id)\<close> of the table, then the two AFTER INSERT triggers. The
  source files do not name the trigger that runs \<open>check_split_claim_completion\<close>, so the
  order of the two is not fixed by them; it only decides the order of the notifications.
\<close>

definition insert_split_claim_participant ::
  "db \<Rightarrow> uuid \<Rightarrow> split_claim_participant \<Rightarrow> timestamptz \<Rightarrow> error + db" where
  "insert_split_claim_participant s uid NEW now =
     (if \<not> users_can_join_split_claims s uid NEW then Inl Rls_violation
      else if list_ex (\<lambda>p. scp_split_claim_id p = scp_split_claim_id NEW \<and>
                           scp_user_id p = scp_user_id NEW) (split_claim_participants s)
        then Inl (Unique_violation ''split_claim_participants_pkey'')
      else Inr (create_split_joined_notification
                  (check_split_claim_completion
                     (s\<lparr>split_claim_participants := split_claim_participants s @ [NEW]\<rparr>) NEW now)
                  NEW))"

text \<open>
  Modelled from the spec: the server action \<open>initiateSplit\<close> is not among the source
  files. By the spec the target is at least 2, the split claim is created pending (and
  active), the initiator is inserted as its first participant in the same transaction, and
  a failure of the store is reported as \<open>Conflict\<close>.
\<close>

definition initiateSplit :: "db \<Rightarrow> uuid \<Rightarrow> uuid \<Rightarrow> int \<Rightarrow> uuid \<Rightarrow> timestamptz \<Rightarrow> error + db" where
  "initiateSplit s item_id initiator_id targetParticipants new_id now =
     (if targetParticipants < 2 then Inl InvalidArgument
      else case insert_split_claim s initiator_id
                  \<lparr>sc_id = new_id, sc_item_id = item_id, sc_initiated_by = initiator_id,
                   sc_target_participants = targetParticipants, sc_status = Pending,
                   sc_claim_status = Active, sc_confirmed_at = None, sc_fulfilled_at = None\<rparr> of
             Inl e \<Rightarrow> Inl Conflict
           | Inr s1 \<Rightarrow>
               (case insert_split_claim_participant s1 initiator_id
                       \<lparr>scp_split_claim_id = new_id, scp_user_id = initiator_id\<rparr> now of
                  Inl e \<Rightarrow> Inl Conflict
                | Inr s2 \<Rightarrow> Inr s2))"

text \<open>
  Modelled from the spec: the server action \<open>joinSplit\<close> is not among the source files;
  it is the plain \<open>INSERT\<close> of the participant row by the user, for themselves. The
  policy and the triggers that decide are those of the migrations.
\<close>

definition joinSplit :: "db \<Rightarrow> uuid \<Rightarrow> uuid \<Rightarrow> timestamptz \<Rightarrow> error + db" where
  "joinSplit s split_claim_id user_id now =
     insert_split_claim_participant s user_id
       \<lparr>scp_split_claim_id = split_claim_id, scp_user_id = user_id\<rparr> now"

text \<open>Trigger \<open>on_split_claim_cancelled\<close> (BEFORE DELETE ON split_claims).\<close>

definition create_split_cancelled_notification :: "db \<Rightarrow> split_claim \<Rightarrow> db" where
  "create_split_cancelled_notification s OLD =
     (if sc_status OLD \<noteq> Pending then s
      else
        (let initiator_name = display_name s (sc_initiated_by OLD);
             item_info = select_into (get_split_claim_item_info s (sc_item_id OLD))
         in s\<lparr>notifications := notifications s @
                map (\<lambda>p. \<lparr>n_user_id = scp_user_id p,
                           n_type = Split_cancelled,
                           n_title = ''Split Cancelled'',
                           n_message = coalesce initiator_name ''Someone'' @
                                       '' cancelled the split for '' @ dq @
                                       coalesce (map_option item_title item_info) ''an item'' @ dq,
                           n_actor_id = Some (sc_initiated_by OLD),
                           n_wishlist_id = map_option info_wishlist_id item_info,
                           n_item_id = Some (sc_item_id OLD),
                           n_split_claim_id = None,
                           n_ownership_flag_id = None\<rparr>)
                  (filter (\<lambda>p. scp_split_claim_id p = sc_id OLD \<and> scp_user_id p \<noteq> sc_initiated_by OLD)
                     (split_claim_participants s))\<rparr>))"

text \<open>
  Deleting the split claims that satisfy \<open>doomed\<close>: the BEFORE DELETE trigger runs for
  each of them, the rows go, and the foreign keys \<open>ON DELETE CASCADE\<close> take their
  participants and the notifications that reference them. A participant deleted by the
  cascade finds its split claim gone, so \<open>create_split_left_notification\<close> returns at
  once for it.
\<close>

definition delete_split_claims :: "db \<Rightarrow> (split_claim \<Rightarrow> bool) \<Rightarrow> db" where
  "delete_split_claims s doomed =
     (let olds = filter doomed (split_claims s);
          s1 = foldl create_split_cancelled_notification s olds
      in s1\<lparr>split_claims := filter (\<lambda>sc. \<not> doomed sc) (split_claims s1),
             split_claim_participants :=
               filter (\<lambda>p. scp_split_claim_id p \<notin> set (map sc_id olds)) (split_claim_participants s1),
             notifications :=
               filter (\<lambda>n. case n_split_claim_id n of None \<Rightarrow> True
                           | Some i \<Rightarrow> i \<notin> set (map sc_id olds))
                 (notifications s1)\<rparr>)"

text \<open>
  \<open>DELETE FROM split_claims WHERE id = split_claim_id\<close> by the user \<open>uid\<close>, under the
  policy "Initiator can delete pending split claim".
\<close>

definition delete_split_claim :: "db \<Rightarrow> uuid \<Rightarrow> uuid \<Rightarrow> db" where
  "delete_split_claim s uid split_claim_id =
     delete_split_claims s
       (\<lambda>sc. sc_id sc = split_claim_id \<and> uid = sc_initiated_by sc \<and> sc_status sc = Pending)"

text \<open>Trigger \<open>on_split_participant_left\<close> (BEFORE DELETE ON split_claim_participants).\<close>

definition create_split_left_notification :: "db \<Rightarrow> split_claim_participant \<Rightarrow> db" where
  "create_split_left_notification s OLD =
     (case select_into (filter (\<lambda>sc. sc_id sc = scp_split_claim_id OLD) (split_claims s)) of
        None \<Rightarrow> s
      | Some split_info \<Rightarrow>
          if sc_initiated_by split_info = scp_user_id OLD then s
          else
            (let leaver_name = display_name s (scp_user_id OLD);
                 item_info = select_into (get_split_claim_item_info s (sc_item_id split_info))
             in notify_split_participants s (scp_split_claim_id OLD) Split_left
                  ''Someone Left Split''
                  (coalesce leaver_name ''Someone'' @ '' left the split for '' @ dq @
                   coalesce (map_option item_title item_info) ''an item'' @ dq)
                  (scp_user_id OLD) (Some (scp_user_id OLD))
                  (Some (sc_item_id split_info)) (map_option info_wishlist_id item_info)))"

text \<open>Policy "Users can leave pending split claims" (FOR DELETE).\<close>

definition users_can_leave_pending_split_claims :: "db \<Rightarrow> uuid \<Rightarrow> split_claim_participant \<Rightarrow> bool" where
  "users_can_leave_pending_split_claims s uid row =
     (uid = scp_user_id row \<and>
      list_ex (\<lambda>sc. sc_id sc = scp_split_claim_id row \<and> sc_status sc = Pending) (split_claims s))"

text \<open>
  \<open>DELETE FROM split_claim_participants WHERE split_claim_id = .. AND user_id = ..\<close> by
  the user \<open>uid\<close>: the rows the policy lets the statement see, the BEFORE DELETE trigger
  for each, then the rows go.
\<close>

definition delete_split_claim_participant :: "db \<Rightarrow> uuid \<Rightarrow> uuid \<Rightarrow> uuid \<Rightarrow> db" where
  "delete_split_claim_participant s uid split_claim_id user_id =
     (let doomed = (\<lambda>p. scp_split_claim_id p = split_claim_id \<and> scp_user_id p = user_id \<and>
                        users_can_leave_pending_split_claims s uid p);
          s1 = foldl create_split_left_notification s (filter doomed (split_claim_participants s))
      in s1\<lparr>split_claim_participants := filter (\<lambda>p. \<not> doomed p) (split_claim_participants s1)\<rparr>)"

text \<open>
  Modelled from the spec: the server action \<open>leaveSplit\<close> is not among the source files.
  By the spec the initiator leaving deletes the whole split claim, anybody else leaving
  deletes their own participant row.
\<close>

definition leaveSplit :: "db \<Rightarrow> uuid \<Rightarrow> uuid \<Rightarrow> error + db" where
  "leaveSplit s split_claim_id user_id =
     (case select_into (filter (\<lambda>sc. sc_id sc = split_claim_id) (split_claims s)) of
        None \<Rightarrow> Inl NotFound
      | Some sc \<Rightarrow>
          if sc_initiated_by sc = user_id then Inr (delete_split_claim s user_id split_claim_id)
          else Inr (delete_split_claim_participant s user_id split_claim_id user_id))"

section \<open>Fulfilment: \<open>fulfill_claims_for_item\<close>\<close>

record fulfilled =
  claim_type :: string
  claim_id :: uuid
  claimer_ids :: "uuid list option"

text \<open>\<open>ARRAY_AGG\<close> over no rows is NULL.\<close>

definition array_agg :: "'a list \<Rightarrow> 'a list option" where
  "array_agg xs = (if xs = [] then None else Some xs)"

definition gift_received_notification ::
  "string option \<Rightarrow> wishlist_item option \<Rightarrow> uuid \<Rightarrow> uuid option \<Rightarrow> uuid \<Rightarrow> notification" where
  "gift_received_notification owner_display_name v_item p_item_id p_owner_id claimer =
     \<lparr>n_user_id = claimer,
      n_type = Gift_received,
      n_title = ''Gift Received!'',
      n_message = coalesce owner_display_name ''Someone'' @ '' marked '' @ dq @
                  coalesce (map_option wi_title v_item) ''an item'' @ dq @
                  '' as received. Thank you for the gift!'',
      n_actor_id = p_owner_id,
      n_wishlist_id = map_option wi_wishlist_id v_item,
      n_item_id = Some p_item_id,
      n_split_claim_id = None,
      n_ownership_flag_id = None\<rparr>"

text \<open>
  The function returns the table of the claims it fulfilled (one row, or none). The record
  variable \<open>v_owner\<close> is assigned only when \<open>p_owner_id\<close> is not NULL; PL/pgSQL raises
  an error where a field of a record that was never assigned is read, which is where a
  notification is built. The error undoes the update before it.
\<close>

definition fulfill_claims_for_item ::
  "db \<Rightarrow> uuid \<Rightarrow> uuid option \<Rightarrow> timestamptz \<Rightarrow> error + (db \<times> fulfilled list)" where
  "fulfill_claims_for_item s p_item_id p_owner_id now =
     (let v_item = select_into (filter (\<lambda>wi. wi_id wi = p_item_id) (wishlist_items s));
          v_owner = map_option (display_name s) p_owner_id;
          v_solo_claim = select_into (filter (\<lambda>c. ic_item_id c = p_item_id \<and> ic_status c = Active)
                                        (item_claims s))
      in case v_solo_claim of
           Some solo \<Rightarrow>
             (case v_owner of
                None \<Rightarrow> Inl (Raise_exception ''record v_owner is not assigned yet'')
              | Some owner_display_name \<Rightarrow>
                  Inr (s\<lparr>item_claims :=
                           map (\<lambda>c. if ic_id c = ic_id solo
                                     then c\<lparr>ic_status := Fulfilled, ic_fulfilled_at := Some now\<rparr>
                                     else c) (item_claims s),
                         notifications := notifications s @
                           [gift_received_notification owner_display_name v_item p_item_id
                              p_owner_id (ic_claimed_by solo)]\<rparr>,
                       [\<lparr>claim_type = ''solo'', claim_id = ic_id solo,
                         claimer_ids = Some [ic_claimed_by solo]\<rparr>]))
         | None \<Rightarrow>
             (case select_into (filter (\<lambda>sc. sc_item_id sc = p_item_id \<and> sc_claim_status sc = Active)
                                  (split_claims s)) of
                Some split \<Rightarrow>
                  (let updated = map (\<lambda>r. if sc_id r = sc_id split
                                           then r\<lparr>sc_claim_status := Fulfilled,
                                                  sc_fulfilled_at := Some now\<rparr>
                                           else r) (split_claims s);
                       v_participant_ids =
                         array_agg (map scp_user_id
                                      (filter (\<lambda>p. scp_split_claim_id p = sc_id split)
                                         (split_claim_participants s)))
                   in case v_participant_ids of
                        None \<Rightarrow>
                          Inr (s\<lparr>split_claims := updated\<rparr>,
                               [\<lparr>claim_type = ''split'', claim_id = sc_id split, claimer_ids = None\<rparr>])
                      | Some ids \<Rightarrow>
                          (case v_owner of
                             None \<Rightarrow> Inl (Raise_exception ''record v_owner is not assigned yet'')
                           | Some owner_display_name \<Rightarrow>
                               Inr (s\<lparr>split_claims := updated,
                                      notifications := notifications s @
                                        map (gift_received_notification owner_display_name v_item
                                               p_item_id p_owner_id) ids\<rparr>,
                                    [\<lparr>claim_type = ''split'', claim_id = sc_id split,
                                      claimer_ids = Some ids\<rparr>])))
              | None \<Rightarrow> Inr (s, [])))"

section \<open>Ownership flags: table \<open>item_ownership_flags\<close>\<close>

text \<open>Policy "Users can flag items on viewable wishlists" (FOR INSERT).\<close>

definition users_can_flag_items_on_viewable_wishlists ::
  "db \<Rightarrow> uuid \<Rightarrow> item_ownership_flag \<Rightarrow> bool" where
  "users_can_flag_items_on_viewable_wishlists s uid NEW =
     (uid = fl_flagged_by NEW \<and> viewable_item_of_other s (fl_item_id NEW) uid)"

text \<open>
  Trigger \<open>trigger_notify_owner_on_flag\<close> (AFTER INSERT, WHEN NEW.status = 'pending').
  Were the item or its wishlist missing, \<open>owner_id\<close> would be NULL and the notification
  would have no addressee.
\<close>

definition notify_owner_on_flag_created :: "db \<Rightarrow> item_ownership_flag \<Rightarrow> error + db" where
  "notify_owner_on_flag_created s NEW =
     (let found = select_into
                    (concat (map (\<lambda>wi. map (\<lambda>w. (w_user_id w, wi_title wi, wi_wishlist_id wi))
                                          (filter (\<lambda>w. w_id w = wi_wishlist_id wi) (wishlists s)))
                               (filter (\<lambda>wi. wi_id wi = fl_item_id NEW) (wishlist_items s))));
          flagger_name = display_name s (fl_flagged_by NEW)
      in case found of
           None \<Rightarrow> Inl (Not_null_violation ''user_id'')
         | Some (owner_id, title, wishlist_id_var) \<Rightarrow>
             Inr (s\<lparr>notifications := notifications s @
                     [\<lparr>n_user_id = owner_id,
                       n_type = Item_flagged_already_owned,
                       n_title = ''Item Ownership Question'',
                       n_message = coalesce flagger_name ''A friend'' @
                                   '' thinks you might already own '' @ dq @ title @ dq,
                       n_actor_id = Some (fl_flagged_by NEW),
                       n_wishlist_id = Some wishlist_id_var,
                       n_item_id = Some (fl_item_id NEW),
                       n_split_claim_id = None,
                       n_ownership_flag_id = Some (fl_id NEW)\<rparr>]\<rparr>))"

text \<open>
  \<open>INSERT INTO item_ownership_flags\<close> by the user \<open>uid\<close>: the INSERT policy, the
  primary key, the table's \<open>UNIQUE(item_id)\<close>, then the AFTER INSERT trigger.
\<close>

definition insert_item_ownership_flag :: "db \<Rightarrow> uuid \<Rightarrow> item_ownership_flag \<Rightarrow> error + db" where
  "insert_item_ownership_flag s uid NEW =
     (if \<not> users_can_flag_items_on_viewable_wishlists s uid NEW then Inl Rls_violation
      else if list_ex (\<lambda>f. fl_id f = fl_id NEW) (item_ownership_flags s)
        then Inl (Unique_violation ''item_ownership_flags_pkey'')
      else if list_ex (\<lambda>f. fl_item_id f = fl_item_id NEW) (item_ownership_flags s)
        then Inl (Unique_violation ''item_ownership_flags_item_id_key'')
      else if fl_status NEW = Flag_pending
        then notify_owner_on_flag_created
               (s\<lparr>item_ownership_flags := item_ownership_flags s @ [NEW]\<rparr>) NEW
      else Inr (s\<lparr>item_ownership_flags := item_ownership_flags s @ [NEW]\<rparr>))"

text \<open>
  Modelled from the spec: the server action \<open>createFlag\<close> is not among the source files;
  it is the plain \<open>INSERT\<close> of the flag by the flagger, \<open>status\<close> taking the column's
  default, pending. The policy, the keys and the triggers that decide are those of the
  migration.
\<close>

definition createFlag :: "db \<Rightarrow> uuid \<Rightarrow> uuid \<Rightarrow> uuid \<Rightarrow> error + db" where
  "createFlag s item_id flagger_id new_id =
     insert_item_ownership_flag s flagger_id
       \<lparr>fl_id = new_id, fl_item_id = item_id, fl_flagged_by = flagger_id,
        fl_status = Flag_pending, fl_resolved_at = None\<rparr>"

text \<open>Policy "Owners can update flags on their items" (FOR UPDATE).\<close>

definition owners_can_update_flags_on_their_items ::
  "db \<Rightarrow> uuid \<Rightarrow> item_ownership_flag \<Rightarrow> bool" where
  "owners_can_update_flags_on_their_items s uid row =
     list_ex (\<lambda>wi. wi_id wi = fl_item_id row \<and>
                list_ex (\<lambda>w. w_id w = wi_wishlist_id wi \<and> w_user_id w = uid) (wishlists s))
       (wishlist_items s)"

text \<open>
  Trigger \<open>trigger_notify_flag_resolution\<close> (AFTER UPDATE). The query joins the owner's
  row of \<open>profiles\<close>; were it to find nothing, \<open>item_title\<close> would be NULL and so would
  the message.
\<close>

definition notify_on_flag_resolution ::
  "db \<Rightarrow> item_ownership_flag \<Rightarrow> item_ownership_flag \<Rightarrow> error + db" where
  "notify_on_flag_resolution s OLD NEW =
     (if (fl_status NEW = Flag_confirmed \<or> fl_status NEW = Flag_denied) \<and> fl_status OLD = Flag_pending
      then
        (case select_into
                (concat (map (\<lambda>wi. concat (map (\<lambda>w. map (\<lambda>p. (snd p, wi_title wi, w_user_id w, w_id w))
                                                       (filter (\<lambda>p. fst p = w_user_id w) (profiles s)))
                                              (filter (\<lambda>w. w_id w = wi_wishlist_id wi) (wishlists s))))
                           (filter (\<lambda>wi. wi_id wi = fl_item_id NEW) (wishlist_items s)))) of
           None \<Rightarrow> Inl (Not_null_violation ''message'')
         | Some (owner_name, title, owner_id, wishlist_id_var) \<Rightarrow>
             Inr (s\<lparr>notifications := notifications s @
                     [\<lparr>n_user_id = fl_flagged_by NEW,
                       n_type = (if fl_status NEW = Flag_confirmed then Flag_confirmed_note
                                 else Flag_denied_note),
                       n_title = (if fl_status NEW = Flag_confirmed then ''Item Confirmed as Owned''
                                  else ''Item Still Wanted''),
                       n_message = (if fl_status NEW = Flag_confirmed
                                    then coalesce owner_name ''The owner'' @
                                         '' confirmed they already own '' @ dq @ title @ dq
                                    else coalesce owner_name ''The owner'' @
                                         '' says they still want '' @ dq @ title @ dq),
                       n_actor_id = Some owner_id,
                       n_wishlist_id = Some wishlist_id_var,
                       n_item_id = Some (fl_item_id NEW),
                       n_split_claim_id = None,
                       n_ownership_flag_id = Some (fl_id NEW)\<rparr>]\<rparr>))
      else Inr s)"

text \<open>
  Trigger \<open>trigger_ownership_flag_confirmed\<close> (AFTER UPDATE): \<open>DELETE FROM item_claims
  WHERE item_id = NEW.item_id\<close>, then \<open>DELETE FROM split_claims WHERE item_id =
  NEW.item_id\<close>. The function is SECURITY DEFINER, so no policy hides a row from it.
\<close>

definition handle_ownership_flag_confirmed ::
  "db \<Rightarrow> item_ownership_flag \<Rightarrow> item_ownership_flag \<Rightarrow> db" where
  "handle_ownership_flag_confirmed s OLD NEW =
     (if fl_status NEW = Flag_confirmed \<and> fl_status OLD = Flag_pending then
        delete_split_claims
          (s\<lparr>item_claims := filter (\<lambda>c. ic_item_id c \<noteq> fl_item_id NEW) (item_claims s)\<rparr>)
          (\<lambda>sc. sc_item_id sc = fl_item_id NEW)
      else s)"

datatype decision = Decide_confirmed | Decide_denied

fun decided_status :: "decision \<Rightarrow> ownership_flag_status" where
  "decided_status Decide_confirmed = Flag_confirmed"
| "decided_status Decide_denied = Flag_denied"

text \<open>
  The AFTER UPDATE triggers of the flags an UPDATE changed, in the order of their names:
  \<open>trigger_notify_flag_resolution\<close>, then \<open>trigger_ownership_flag_confirmed\<close>.
\<close>

fun after_update_on_item_ownership_flags ::
  "db \<Rightarrow> (item_ownership_flag \<times> item_ownership_flag) list \<Rightarrow> error + db" where
  "after_update_on_item_ownership_flags s [] = Inr s"
| "after_update_on_item_ownership_flags s ((OLD, NEW) # changed) =
     (case notify_on_flag_resolution s OLD NEW of
        Inl e \<Rightarrow> Inl e
      | Inr s1 \<Rightarrow>
          after_update_on_item_ownership_flags (handle_ownership_flag_confirmed s1 OLD NEW) changed)"

text \<open>
  Modelled from the spec: the server action \<open>resolveFlag\<close> is not among the source
  files. By the spec it sets the flag's status to the owner's decision (and the time of
  the resolution): \<open>UPDATE item_ownership_flags SET status = .., resolved_at = NOW()
  WHERE id = flag_id\<close> by the user \<open>owner_id\<close>. The policy and the triggers are the
  source's: a flag on somebody else's item is not visible to the statement and stays.
\<close>

definition resolveFlag :: "db \<Rightarrow> uuid \<Rightarrow> uuid \<Rightarrow> decision \<Rightarrow> timestamptz \<Rightarrow> error + db" where
  "resolveFlag s flag_id owner_id decision now =
     (let visible = (\<lambda>f. fl_id f = flag_id \<and> owners_can_update_flags_on_their_items s owner_id f);
          set_status = (\<lambda>f. f\<lparr>fl_status := decided_status decision, fl_resolved_at := Some now\<rparr>)
      in after_update_on_item_ownership_flags
           (s\<lparr>item_ownership_flags :=
                map (\<lambda>f. if visible f then set_status f else f) (item_ownership_flags s)\<rparr>)
           (map (\<lambda>f. (f, set_status f)) (filter visible (item_ownership_flags s))))"

text \<open>
  \<open>deleteFlag\<close>: \<open>DELETE FROM item_ownership_flags WHERE id = flag_id\<close> by the user
  \<open>uid\<close>, under the policy "Users can delete their own pending flags"; the foreign key
  of \<open>notifications.ownership_flag_id\<close> is \<open>ON DELETE CASCADE\<close>.
\<close>

definition deleteFlag :: "db \<Rightarrow> uuid \<Rightarrow> uuid \<Rightarrow> db" where
  "deleteFlag s flag_id uid =
     (let doomed = (\<lambda>f. fl_id f = flag_id \<and> uid = fl_flagged_by f \<and> fl_status f = Flag_pending)
      in s\<lparr>item_ownership_flags := filter (\<lambda>f. \<not> doomed f) (item_ownership_flags s),
            notifications :=
              filter (\<lambda>n. case n_ownership_flag_id n of None \<Rightarrow> True
                          | Some i \<Rightarrow> i \<notin> set (map fl_id (filter doomed (item_ownership_flags s))))
                (notifications s)\<rparr>)"

section \<open>The operations as a transition system\<close>

datatype operation =
    CreateSoloClaim uuid uuid uuid
  | CancelSoloClaim uuid uuid
  | Unclaim uuid uuid
  | InitiateSplit uuid uuid int uuid timestamptz
  | JoinSplit uuid uuid timestamptz
  | LeaveSplit uuid uuid
  | FulfillClaimsForItem uuid "uuid option" timestamptz
  | CreateFlag uuid uuid uuid
  | ResolveFlag uuid uuid decision timestamptz
  | DeleteFlag uuid uuid

text \<open>One operation is one transaction: it yields the next state, or fails and changes nothing.\<close>

fun exec :: "db \<Rightarrow> operation \<Rightarrow> error + db" where
  "exec s (CreateSoloClaim item claimer new_id) = createSoloClaim s item claimer new_id"
| "exec s (CancelSoloClaim claim caller) = cancelSoloClaim s claim caller"
| "exec s (Unclaim uid claim) = Inr (delete_item_claim s uid claim)"
| "exec s (InitiateSplit item initiator target new_id now) =
     initiateSplit s item initiator target new_id now"
| "exec s (JoinSplit split user now) = joinSplit s split user now"
| "exec s (LeaveSplit split user) = leaveSplit s split user"
| "exec s (FulfillClaimsForItem item owner now) =
     (case fulfill_claims_for_item s item owner now of Inl e \<Rightarrow> Inl e | Inr (s', _) \<Rightarrow> Inr s')"
| "exec s (CreateFlag item flagger new_id) = createFlag s item flagger new_id"
| "exec s (ResolveFlag flag owner decision now) = resolveFlag s flag owner decision now"
| "exec s (DeleteFlag flag uid) = Inr (deleteFlag s flag uid)"

text \<open>
  The tables this subsystem only reads (wishlists, items, friendships, selected friends,
  profiles) are written by the rest of the application. \<open>set_surroundings\<close> replaces
  them. A row of \<open>wishlist_items\<close> or of \<open>profiles\<close> whose id is in the old table and
  not in the new one has been deleted, and \<open>item_ownership_flags\<close> declares
  \<open>item_id ... REFERENCES wishlist_items(id) ON DELETE CASCADE\<close> and
  \<open>flagged_by ... REFERENCES profiles(id) ON DELETE CASCADE\<close>: the flags of a deleted item
  and the flags raised by a deleted profile go with it, and the notifications of these
  flags too (\<open>notifications.ownership_flag_id ... ON DELETE CASCADE\<close>). The declarations
  of \<open>item_claims\<close> and \<open>split_claims\<close> are not among the migrations at hand; their rows
  are left as they are.
\<close>

definition set_surroundings ::
  "db \<Rightarrow> wishlist list \<Rightarrow> wishlist_item list \<Rightarrow> friendship list \<Rightarrow> (uuid \<times> uuid) list \<Rightarrow>
   (uuid \<times> string option) list \<Rightarrow> db" where
  "set_surroundings s ws items fs sel ps =
     (let deleted_item = (\<lambda>i. i \<in> set (map wi_id (wishlist_items s)) \<and> i \<notin> set (map wi_id items));
          deleted_profile = (\<lambda>u. u \<in> set (map fst (profiles s)) \<and> u \<notin> set (map fst ps));
          doomed = (\<lambda>f. deleted_item (fl_item_id f) \<or> deleted_profile (fl_flagged_by f))
      in s\<lparr>wishlists := ws, wishlist_items := items, friendships := fs,
            wishlist_selected_friends := sel, profiles := ps,
            item_ownership_flags := filter (\<lambda>f. \<not> doomed f) (item_ownership_flags s),
            notifications :=
              filter (\<lambda>n. case n_ownership_flag_id n of None \<Rightarrow> True
                          | Some i \<Rightarrow> i \<notin> set (map fl_id (filter doomed (item_ownership_flags s))))
                (notifications s)\<rparr>)"

text \<open>
  The reachable states: the claim and flag tables start empty, every successful operation
  is a step, and the surroundings may change in any way between two operations, as long as
  \<open>wishlists.id\<close> and \<open>wishlist_items.id\<close> stay keys.
\<close>

definition catalogue_keys :: "db \<Rightarrow> bool" where
  "catalogue_keys s = (distinct (map w_id (wishlists s)) \<and> distinct (map wi_id (wishlist_items s)))"

inductive reachable :: "db \<Rightarrow> bool" where
  initial: "item_claims s = [] \<Longrightarrow> split_claims s = [] \<Longrightarrow> split_claim_participants s = [] \<Longrightarrow>
            item_ownership_flags s = [] \<Longrightarrow> catalogue_keys s \<Longrightarrow> reachable s"
| step: "reachable s \<Longrightarrow> exec s operation = Inr s' \<Longrightarrow> reachable s'"
| surroundings: "reachable s \<Longrightarrow> catalogue_keys (set_surroundings s ws items fs sel ps) \<Longrightarrow>
     reachable (set_surroundings s ws items fs sel ps)"

text \<open>
  What happens to the store, one event after the other: an operation (one that fails
  leaves the state as it was), or a change of the surroundings.
\<close>

datatype event =
    Operation operation
  | Surroundings "wishlist list" "wishlist_item list" "friendship list" "(uuid \<times> uuid) list"
      "(uuid \<times> string option) list"

fun happen :: "db \<Rightarrow> event \<Rightarrow> db" where
  "happen s (Operation operation) = (case exec s operation of Inl e \<Rightarrow> s | Inr s' \<Rightarrow> s')"
| "happen s (Surroundings ws items fs sel ps) = set_surroundings s ws items fs sel ps"

fun evolve :: "db \<Rightarrow> event list \<Rightarrow> db" where
  "evolve s [] = s"
| "evolve s (e # events) = evolve (happen s e) events"

text \<open>
  An event keeps the flag \<open>f\<close> when it is an operation, or a change of the surroundings
  after which the flag's item and the profile of its flagger are still there.
\<close>

fun keeps_flag :: "item_ownership_flag \<Rightarrow> event \<Rightarrow> bool" where
  "keeps_flag f (Operation operation) = True"
| "keeps_flag f (Surroundings ws items fs sel ps) =
     (list_ex (\<lambda>i. wi_id i = fl_item_id f) items \<and> list_ex (\<lambda>p. fst p = fl_flagged_by f) ps)"

text \<open>Running a list of operations; one that fails leaves the state as it was.\<close>

fun run :: "db \<Rightarrow> operation list \<Rightarrow> db" where
  "run s [] = s"
| "run s (operation # operations) =
     (case exec s operation of Inl e \<Rightarrow> run s operations | Inr s' \<Rightarrow> run s' operations)"

section \<open>Notions the properties are stated with\<close>

definition active_solo_claims :: "db \<Rightarrow> uuid \<Rightarrow> item_claim list" where
  "active_solo_claims s item =
     filter (\<lambda>c. ic_item_id c = item \<and> ic_status c = Active) (item_claims s)"

definition active_split_claims :: "db \<Rightarrow> uuid \<Rightarrow> split_claim list" where
  "active_split_claims s item =
     filter (\<lambda>sc. sc_item_id sc = item \<and> sc_claim_status sc = Active) (split_claims s)"

definition participants_of :: "db \<Rightarrow> uuid \<Rightarrow> uuid list" where
  "participants_of s sid =
     map scp_user_id (filter (\<lambda>p. scp_split_claim_id p = sid) (split_claim_participants s))"

definition participant_count :: "db \<Rightarrow> uuid \<Rightarrow> nat" where
  "participant_count s sid =
     length (filter (\<lambda>p. scp_split_claim_id p = sid) (split_claim_participants s))"

text \<open>The condition of the \<open>IF\<close> in \<open>check_split_claim_completion\<close>.\<close>

definition reaches_target :: "db \<Rightarrow> uuid \<Rightarrow> bool" where
  "reaches_target s sid =
     (case select_into (filter (\<lambda>sc. sc_id sc = sid) (split_claims s)) of
        None \<Rightarrow> False
      | Some sc \<Rightarrow>
          int (length (filter (\<lambda>p. scp_split_claim_id p = sid) (split_claim_participants s)))
            \<ge> sc_target_participants sc \<and> sc_status sc = Pending)"

text \<open>The owner of an item and the wishlist it is in, NULL when the item does not exist.\<close>

definition item_owner :: "db \<Rightarrow> uuid \<Rightarrow> uuid option" where
  "item_owner s item = map_option wishlist_owner_id (select_into (get_split_claim_item_info s item))"

definition item_wishlist :: "db \<Rightarrow> uuid \<Rightarrow> uuid option" where
  "item_wishlist s item = map_option info_wishlist_id (select_into (get_split_claim_item_info s item))"

definition can_view_item :: "db \<Rightarrow> uuid \<Rightarrow> uuid \<Rightarrow> bool" where
  "can_view_item s item viewer =
     (case item_wishlist s item of
        None \<Rightarrow> False
      | Some wl \<Rightarrow> can_view_wishlist s (Some wl) (Some viewer))"

definition resolved_flag_on :: "db \<Rightarrow> uuid \<Rightarrow> bool" where
  "resolved_flag_on s item =
     list_ex (\<lambda>f. fl_item_id f = item \<and> fl_status f \<noteq> Flag_pending) (item_ownership_flags s)"

text \<open>At most one friendship row for two users, whoever sent the request.\<close>

definition one_friendship_per_pair :: "db \<Rightarrow> bool" where
  "one_friendship_per_pair s =
     distinct (map (\<lambda>f. (min (f_requester_id f) (f_addressee_id f),
                          max (f_requester_id f) (f_addressee_id f))) (friendships s))"

text \<open>
  The accepted rows of \<open>friendships\<close> between two users, whoever sent the request: the
  rows \<open>are_friends\<close> looks for.
\<close>

definition accepted_friendships :: "db \<Rightarrow> uuid \<Rightarrow> uuid \<Rightarrow> friendship list" where
  "accepted_friendships s a b =
     filter (\<lambda>f. f_status f = ''accepted'' \<and>
                 ((f_requester_id f = a \<and> f_addressee_id f = b) \<or>
                  (f_requester_id f = b \<and> f_addressee_id f = a)))
       (friendships s)"

text \<open>\<open>s'\<close> differs from \<open>s\<close> in the notifications at most.\<close>

definition only_notifies :: "db \<Rightarrow> db \<Rightarrow> bool" where
  "only_notifies s s' = (s' = s\<lparr>notifications := notifications s'\<rparr>)"

subsection \<open>The invariants of the claim tables\<close>

definition solo_split_apart :: "db \<Rightarrow> bool" where
  "solo_split_apart s =
     list_all (\<lambda>c. list_all (\<lambda>sc. ic_item_id c \<noteq> sc_item_id sc) (split_claims s)) (item_claims s)"

definition one_active_solo :: "db \<Rightarrow> bool" where
  "one_active_solo s =
     list_all (\<lambda>c. length (active_solo_claims s (ic_item_id c)) \<le> 1) (item_claims s)"

definition one_active_split :: "db \<Rightarrow> bool" where
  "one_active_split s =
     list_all (\<lambda>sc. length (active_split_claims s (sc_item_id sc)) \<le> 1) (split_claims s)"

definition item_claims_pkey :: "db \<Rightarrow> bool" where
  "item_claims_pkey s = distinct (map ic_id (item_claims s))"

definition split_claims_pkey :: "db \<Rightarrow> bool" where
  "split_claims_pkey s = distinct (map sc_id (split_claims s))"

definition split_claim_participants_pkey :: "db \<Rightarrow> bool" where
  "split_claim_participants_pkey s =
     distinct (map (\<lambda>p. (scp_split_claim_id p, scp_user_id p)) (split_claim_participants s))"

definition split_claim_participants_fkey :: "db \<Rightarrow> bool" where
  "split_claim_participants_fkey s =
     list_all (\<lambda>p. list_ex (\<lambda>sc. sc_id sc = scp_split_claim_id p) (split_claims s))
       (split_claim_participants s)"

definition pending_below_target :: "db \<Rightarrow> bool" where
  "pending_below_target s =
     list_all (\<lambda>sc. sc_status sc = Pending \<longrightarrow>
                    int (participant_count s (sc_id sc)) < sc_target_participants sc)
       (split_claims s)"

definition item_ownership_flags_pkey :: "db \<Rightarrow> bool" where
  "item_ownership_flags_pkey s = distinct (map fl_id (item_ownership_flags s))"

definition consistent :: "db \<Rightarrow> bool" where
  "consistent s =
     (solo_split_apart s \<and> one_active_solo s \<and> one_active_split s \<and> split_claims_pkey s \<and>
      split_claim_participants_pkey s \<and> split_claim_participants_fkey s \<and>
      pending_below_target s \<and> item_ownership_flags_pkey s \<and> item_claims_pkey s)"

subsection \<open>An example: Ann's wishlist and her friends\<close>

text \<open>
  Ann (1) owns the wishlist 10, visible to her friends, with the item 100 in it, and the
  private wishlist 11 with the item 110. Bob (2), Cy (3) and Eve (5) are friends of Ann;
  Dan (4) is a friend of Bob, not of Ann.
\<close>

definition ex_db :: db where
  "ex_db =
     \<lparr>wishlists = [\<lparr>w_id = 10, w_user_id = 1, w_privacy = ''friends'', w_name = ''Birthday''\<rparr>,
                   \<lparr>w_id = 11, w_user_id = 1, w_privacy = ''private'', w_name = ''Secret''\<rparr>],
      wishlist_items = [\<lparr>wi_id = 100, wi_wishlist_id = 10, wi_title = ''Book''\<rparr>,
                        \<lparr>wi_id = 110, wi_wishlist_id = 11, wi_title = ''Lamp''\<rparr>],
      friendships = [\<lparr>f_requester_id = 1, f_addressee_id = 2, f_status = ''accepted''\<rparr>,
                     \<lparr>f_requester_id = 3, f_addressee_id = 1, f_status = ''accepted''\<rparr>,
                     \<lparr>f_requester_id = 2, f_addressee_id = 3, f_status = ''accepted''\<rparr>,
                     \<lparr>f_requester_id = 4, f_addressee_id = 2, f_status = ''accepted''\<rparr>,
                     \<lparr>f_requester_id = 1, f_addressee_id = 5, f_status = ''accepted''\<rparr>],
      wishlist_selected_friends = [(11, 2)],
      profiles = [(1, Some ''Ann''), (2, Some ''Bob''), (3, None)],
      item_claims = [], split_claims = [], split_claim_participants = [],
      item_ownership_flags = [], notifications = []\<rparr>"

text \<open>Bob claims the book.\<close>

definition ex_claimed :: db where
  "ex_claimed = run ex_db [CreateSoloClaim 100 2 600]"

text \<open>Bob starts a split for the book with a target of two.\<close>

definition ex_split :: db where
  "ex_split = run ex_db [InitiateSplit 100 2 2 500 7]"

text \<open>Cy joins, and the split is confirmed.\<close>

definition ex_confirmed :: db where
  "ex_confirmed = run ex_split [JoinSplit 500 3 8]"

text \<open>Ann marks the book as received.\<close>

definition ex_fulfilled :: db where
  "ex_fulfilled = run ex_confirmed [FulfillClaimsForItem 100 (Some 1) 9]"

text \<open>Bob has claimed the book, and Cy flags it as already owned.\<close>

definition ex_flagged :: db where
  "ex_flagged = run ex_claimed [CreateFlag 100 3 700]"

text \<open>Bob has started the split, and Cy flags the book.\<close>

definition ex_flagged_split :: db where
  "ex_flagged_split = run ex_split [CreateFlag 100 3 700]"

text \<open>Bob starts a split with a target of three, and Cy joins.\<close>

definition ex_split3 :: db where
  "ex_split3 = run ex_db [InitiateSplit 100 2 3 500 7]"

definition ex_joined3 :: db where
  "ex_joined3 = run ex_split3 [JoinSplit 500 3 8]"

text \<open>\<open>s'\<close> has the tables of the surroundings as \<open>s\<close> has them.\<close>

definition same_surroundings :: "db \<Rightarrow> db \<Rightarrow> bool" where
  "same_surroundings s s' =
     (wishlists s' = wishlists s \<and> wishlist_items s' = wishlist_items s \<and>
      friendships s' = friendships s \<and>
      wishlist_selected_friends s' = wishlist_selected_friends s \<and> profiles s' = profiles s)"

text \<open>The id and the status of every split claim.\<close>

definition split_statuses :: "db \<Rightarrow> (uuid \<times> split_claim_status) list" where
  "split_statuses s = map (\<lambda>sc. (sc_id sc, sc_status sc)) (split_claims s)"

text \<open>Cy has flagged the book; Ann denies the flag.\<close>

definition ex_resolved :: db where
  "ex_resolved = run ex_flagged [ResolveFlag 700 1 Decide_denied 9]"

text \<open>
  Later Cy tries to delete the resolved flag, Bob cancels his claim, and Dan gets a profile
  while Eve's friendship with Ann ends.
\<close>

definition ex_later :: db where
  "ex_later =
     evolve ex_resolved
       [Operation (DeleteFlag 700 3), Operation (CancelSoloClaim 600 2),
        Surroundings (wishlists ex_db) (wishlist_items ex_db)
          [\<lparr>f_requester_id = 1, f_addressee_id = 2, f_status = ''accepted''\<rparr>,
           \<lparr>f_requester_id = 3, f_addressee_id = 1, f_status = ''accepted''\<rparr>,
           \<lparr>f_requester_id = 2, f_addressee_id = 3, f_status = ''accepted''\<rparr>,
           \<lparr>f_requester_id = 4, f_addressee_id = 2, f_status = ''accepted''\<rparr>]
          [(11, 2)]
          [(1, Some ''Ann''), (2, Some ''Bob''), (3, None), (4, Some ''Dan'')]]"

text \<open>
  Or else Cy's account is deleted after Ann has denied the flag: the profile goes, and
  Cy's friendships with it.
\<close>

definition ex_gone :: db where
  "ex_gone =
     evolve ex_resolved
       [Surroundings (wishlists ex_db) (wishlist_items ex_db)
          [\<lparr>f_requester_id = 1, f_addressee_id = 2, f_status = ''accepted''\<rparr>,
           \<lparr>f_requester_id = 4, f_addressee_id = 2, f_status = ''accepted''\<rparr>,
           \<lparr>f_requester_id = 1, f_addressee_id = 5, f_status = ''accepted''\<rparr>]
          [(11, 2)]
          [(1, Some ''Ann''), (2, Some ''Bob'')]]"

text \<open>Then Bob flags the book.\<close>

definition ex_reflagged :: db where
  "ex_reflagged = run ex_gone [CreateFlag 100 2 701]"

text \<open>
  Bob claims the book and Cy starts a split for it at the same moment: each transaction
  begins on \<open>ex_db\<close>. Bob's writes \<open>item_claims\<close> and nothing else, Cy's writes the
  tables of the split and the notifications; \<open>ex_raced\<close> holds what both have written.
\<close>

definition ex_split_cy :: db where
  "ex_split_cy = run ex_db [InitiateSplit 100 3 2 500 7]"

definition ex_raced :: db where
  "ex_raced = ex_split_cy\<lparr>item_claims := item_claims ex_claimed\<rparr>"

text \<open>
  Ann's wishlists once more, with two rows for the friendship of Bob and Cy: each has sent
  a request to the other, and both requests were accepted.
\<close>

definition ex_db2 :: db where
  "ex_db2 =
     ex_db\<lparr>friendships :=
              [\<lparr>f_requester_id = 1, f_addressee_id = 2, f_status = ''accepted''\<rparr>,
               \<lparr>f_requester_id = 3, f_addressee_id = 1, f_status = ''accepted''\<rparr>,
               \<lparr>f_requester_id = 2, f_addressee_id = 3, f_status = ''accepted''\<rparr>,
               \<lparr>f_requester_id = 4, f_addressee_id = 2, f_status = ''accepted''\<rparr>,
               \<lparr>f_requester_id = 3, f_addressee_id = 2, f_status = ''accepted''\<rparr>]\<rparr>"

definition ex_split2 :: db where
  "ex_split2 = run ex_db2 [InitiateSplit 100 2 2 500 7]"

section \<open>Frames: what the trigger functions leave alone\<close>

lemma select_into_by_key:
  assumes "distinct (map key rows)" and "r \<in> set rows"
  shows "select_into (filter (\<lambda>x. key x = key r) rows) = Some r"
  using assms
proof (induction rows)
  case Nil
  then show ?case by simp
next
  case (Cons a rows)
  show ?case
  proof (cases "key a = key r")
    case True
    with Cons.prems have "a = r" by (auto simp: image_iff)
    with True show ?thesis by (simp add: select_into_def)
  next
    case False
    with Cons show ?thesis by auto
  qed
qed

lemma are_friends_NULL [simp]: "are_friends s None v = False"
  by (simp add: are_friends_def list_ex_iff)

lemma only_notifies_refl [simp]: "only_notifies s s"
  by (simp add: only_notifies_def)

lemma only_notifies_trans: "only_notifies s s1 \<Longrightarrow> only_notifies s1 s2 \<Longrightarrow> only_notifies s s2"
  unfolding only_notifies_def by (cases s; cases s1; cases s2) simp

lemma only_notifies_update [simp]: "only_notifies s (s\<lparr>notifications := n\<rparr>)"
  by (simp add: only_notifies_def)

lemma only_notifies_tables:
  assumes "only_notifies s s'"
  shows "wishlists s' = wishlists s" "wishlist_items s' = wishlist_items s"
    "friendships s' = friendships s" "wishlist_selected_friends s' = wishlist_selected_friends s"
    "profiles s' = profiles s" "item_claims s' = item_claims s" "split_claims s' = split_claims s"
    "split_claim_participants s' = split_claim_participants s"
    "item_ownership_flags s' = item_ownership_flags s"
  using assms unfolding only_notifies_def by (cases s; cases s'; simp)+

lemma only_notifies_foldl:
  assumes "\<And>st x. only_notifies st (f st x)"
  shows "only_notifies s (foldl f s xs)"
proof (induction xs arbitrary: s)
  case Nil
  show ?case by simp
next
  case (Cons x xs)
  have "only_notifies s (f s x)" by (rule assms)
  moreover have "only_notifies (f s x) (foldl f (f s x) xs)" by (rule Cons.IH)
  ultimately show ?case by (simp add: only_notifies_trans)
qed

lemma notify_split_participants_only_notifies [simp]:
  "only_notifies s (notify_split_participants s a b c d e f g h)"
  by (simp add: notify_split_participants_def)

lemma create_split_initiated_only_notifies [simp]:
  "only_notifies s (create_split_initiated_notification s NEW)"
  by (simp add: create_split_initiated_notification_def Let_def)

lemma create_split_confirmed_only_notifies [simp]:
  "only_notifies s (create_split_confirmed_notification s OLD NEW)"
  by (simp add: create_split_confirmed_notification_def Let_def)

lemma create_split_joined_only_notifies [simp]:
  "only_notifies s (create_split_joined_notification s NEW)"
  by (simp add: create_split_joined_notification_def Let_def)

lemma create_split_cancelled_only_notifies [simp]:
  "only_notifies s (create_split_cancelled_notification s OLD)"
  by (simp add: create_split_cancelled_notification_def Let_def)

lemma create_split_left_only_notifies [simp]:
  "only_notifies s (create_split_left_notification s OLD)"
  by (simp add: create_split_left_notification_def Let_def split: option.splits)

section \<open>What each operation does to the tables\<close>

lemma createSoloClaim_Inr:
  assumes "createSoloClaim s item u n = Inr s'"
  shows "s' = s\<lparr>item_claims := item_claims s @
                  [\<lparr>ic_id = n, ic_item_id = item, ic_claimed_by = u, ic_status = Active,
                    ic_fulfilled_at = None\<rparr>]\<rparr>"
    and "\<not> list_ex (\<lambda>sc. sc_item_id sc = item) (split_claims s)"
    and "viewable_item_of_other s item u"
    and "\<not> list_ex (\<lambda>c. ic_id c = n) (item_claims s)"
    and "\<not> list_ex (\<lambda>c. ic_item_id c = item \<and> ic_status c = Active) (item_claims s)"
  using assms
  by (auto simp: createSoloClaim_def insert_item_claim_def prevent_solo_on_split_item_def
      users_can_claim_items_on_viewable_wishlists_def split: if_splits option.splits sum.splits)

lemma cancelSoloClaim_Inr:
  assumes "cancelSoloClaim s claim caller = Inr s'"
  shows "s' = s\<lparr>item_claims := map (\<lambda>c. if ic_id c = claim then c\<lparr>ic_status := Cancelled\<rparr> else c)
                                  (item_claims s)\<rparr>"
  using assms
  by (auto simp: cancelSoloClaim_def split: if_splits option.splits)

lemma foldl_confirmed_only_notifies:
  "only_notifies s0 (foldl (\<lambda>st old. create_split_confirmed_notification st old (g old)) s0 xs)"
  by (rule only_notifies_foldl) simp

lemma check_split_claim_completion_tables:
  shows "split_claims (check_split_claim_completion s NEW now) =
           (if reaches_target s (scp_split_claim_id NEW)
            then map (\<lambda>r. if sc_id r = scp_split_claim_id NEW
                           then r\<lparr>sc_status := Confirmed, sc_confirmed_at := Some now\<rparr> else r)
                   (split_claims s)
            else split_claims s)"
    and "item_claims (check_split_claim_completion s NEW now) = item_claims s"
    and "split_claim_participants (check_split_claim_completion s NEW now) = split_claim_participants s"
    and "item_ownership_flags (check_split_claim_completion s NEW now) = item_ownership_flags s"
    and "wishlists (check_split_claim_completion s NEW now) = wishlists s"
    and "wishlist_items (check_split_claim_completion s NEW now) = wishlist_items s"
    and "friendships (check_split_claim_completion s NEW now) = friendships s"
    and "wishlist_selected_friends (check_split_claim_completion s NEW now) = wishlist_selected_friends s"
    and "profiles (check_split_claim_completion s NEW now) = profiles s"
  using only_notifies_tables[OF foldl_confirmed_only_notifies]
  by (auto simp: check_split_claim_completion_def Let_def reaches_target_def split: option.splits)

lemmas notification_frames [simp] =
  only_notifies_tables[OF notify_split_participants_only_notifies]
  only_notifies_tables[OF create_split_initiated_only_notifies]
  only_notifies_tables[OF create_split_confirmed_only_notifies]
  only_notifies_tables[OF create_split_joined_only_notifies]
  only_notifies_tables[OF create_split_cancelled_only_notifies]
  only_notifies_tables[OF create_split_left_only_notifies]
  check_split_claim_completion_tables

lemma insert_split_claim_Inr:
  assumes "insert_split_claim s uid NEW = Inr s'"
  shows "split_claims s' = split_claims s @ [NEW]"
    and "item_claims s' = item_claims s"
    and "split_claim_participants s' = split_claim_participants s"
    and "item_ownership_flags s' = item_ownership_flags s"
    and "wishlists s' = wishlists s" and "wishlist_items s' = wishlist_items s"
    and "friendships s' = friendships s"
    and "wishlist_selected_friends s' = wishlist_selected_friends s"
    and "profiles s' = profiles s"
    and "\<not> list_ex (\<lambda>c. ic_item_id c = sc_item_id NEW) (item_claims s)"
    and "uid = sc_initiated_by NEW" and "viewable_item_of_other s (sc_item_id NEW) uid"
    and "\<not> list_ex (\<lambda>sc. sc_id sc = sc_id NEW) (split_claims s)"
    and "sc_claim_status NEW = Active \<Longrightarrow>
         \<not> list_ex (\<lambda>sc. sc_item_id sc = sc_item_id NEW \<and> sc_claim_status sc = Active) (split_claims s)"
  using assms
  by (auto simp: insert_split_claim_def prevent_split_on_claimed_item_def
      users_can_initiate_split_claims_on_viewable_wishlists_def split: if_splits option.splits)

lemma insert_split_claim_participant_Inr:
  assumes "insert_split_claim_participant s uid NEW now = Inr s'"
  shows "split_claim_participants s' = split_claim_participants s @ [NEW]"
    and "split_claims s' =
           (if reaches_target (s\<lparr>split_claim_participants := split_claim_participants s @ [NEW]\<rparr>)
                 (scp_split_claim_id NEW)
            then map (\<lambda>r. if sc_id r = scp_split_claim_id NEW
                           then r\<lparr>sc_status := Confirmed, sc_confirmed_at := Some now\<rparr> else r)
                   (split_claims s)
            else split_claims s)"
    and "item_claims s' = item_claims s"
    and "item_ownership_flags s' = item_ownership_flags s"
    and "wishlists s' = wishlists s" and "wishlist_items s' = wishlist_items s"
    and "friendships s' = friendships s"
    and "wishlist_selected_friends s' = wishlist_selected_friends s"
    and "profiles s' = profiles s"
    and "users_can_join_split_claims s uid NEW"
    and "\<not> list_ex (\<lambda>p. scp_split_claim_id p = scp_split_claim_id NEW \<and>
                         scp_user_id p = scp_user_id NEW) (split_claim_participants s)"
  using assms
  by (auto simp: insert_split_claim_participant_def split: if_splits)

lemma foldl_cancelled_only_notifies:
  "only_notifies s (foldl create_split_cancelled_notification s xs)"
  by (rule only_notifies_foldl) simp

lemma delete_split_claims_tables:
  shows "split_claims (delete_split_claims s doomed) = filter (\<lambda>sc. \<not> doomed sc) (split_claims s)"
    and "split_claim_participants (delete_split_claims s doomed) =
           filter (\<lambda>p. scp_split_claim_id p \<notin> sc_id ` {sc \<in> set (split_claims s). doomed sc})
             (split_claim_participants s)"
    and "item_claims (delete_split_claims s doomed) = item_claims s"
    and "item_ownership_flags (delete_split_claims s doomed) = item_ownership_flags s"
    and "wishlists (delete_split_claims s doomed) = wishlists s"
    and "wishlist_items (delete_split_claims s doomed) = wishlist_items s"
    and "friendships (delete_split_claims s doomed) = friendships s"
    and "wishlist_selected_friends (delete_split_claims s doomed) = wishlist_selected_friends s"
    and "profiles (delete_split_claims s doomed) = profiles s"
  using only_notifies_tables[OF foldl_cancelled_only_notifies]
  by (auto simp: delete_split_claims_def Let_def)

lemma foldl_left_only_notifies:
  "only_notifies s (foldl create_split_left_notification s xs)"
  by (rule only_notifies_foldl) simp

lemma delete_split_claim_participant_tables:
  shows "split_claim_participants (delete_split_claim_participant s uid sid u) =
           filter (\<lambda>p. \<not> (scp_split_claim_id p = sid \<and> scp_user_id p = u \<and>
                           users_can_leave_pending_split_claims s uid p))
             (split_claim_participants s)"
    and "split_claims (delete_split_claim_participant s uid sid u) = split_claims s"
    and "item_claims (delete_split_claim_participant s uid sid u) = item_claims s"
    and "item_ownership_flags (delete_split_claim_participant s uid sid u) = item_ownership_flags s"
    and "wishlists (delete_split_claim_participant s uid sid u) = wishlists s"
    and "wishlist_items (delete_split_claim_participant s uid sid u) = wishlist_items s"
    and "friendships (delete_split_claim_participant s uid sid u) = friendships s"
    and "wishlist_selected_friends (delete_split_claim_participant s uid sid u) = wishlist_selected_friends s"
    and "profiles (delete_split_claim_participant s uid sid u) = profiles s"
  using only_notifies_tables[OF foldl_left_only_notifies]
  by (auto simp: delete_split_claim_participant_def Let_def)

section \<open>Every operation keeps the claim tables consistent\<close>

lemma one_active_solo_iff: "one_active_solo s \<longleftrightarrow> (\<forall>i. length (active_solo_claims s i) \<le> 1)"
proof
  assume a: "one_active_solo s"
  show "\<forall>i. length (active_solo_claims s i) \<le> 1"
  proof
    fix i
    show "length (active_solo_claims s i) \<le> 1"
    proof (cases "\<exists>c\<in>set (item_claims s). ic_item_id c = i")
      case True
      with a show ?thesis by (auto simp: one_active_solo_def list_all_iff)
    next
      case False
      then have "active_solo_claims s i = []" by (auto simp: active_solo_claims_def filter_empty_conv)
      then show ?thesis by simp
    qed
  qed
qed (simp add: one_active_solo_def list_all_iff)

lemma one_active_split_iff: "one_active_split s \<longleftrightarrow> (\<forall>i. length (active_split_claims s i) \<le> 1)"
proof
  assume a: "one_active_split s"
  show "\<forall>i. length (active_split_claims s i) \<le> 1"
  proof
    fix i
    show "length (active_split_claims s i) \<le> 1"
    proof (cases "\<exists>c\<in>set (split_claims s). sc_item_id c = i")
      case True
      with a show ?thesis by (auto simp: one_active_split_def list_all_iff)
    next
      case False
      then have "active_split_claims s i = []" by (auto simp: active_split_claims_def filter_empty_conv)
      then show ?thesis by simp
    qed
  qed
qed (simp add: one_active_split_def list_all_iff)

lemma map_key_same:
  assumes "\<And>x. k (f x) = k x"
  shows "map k (map f xs) = map k xs"
  by (induction xs) (simp_all add: assms)

lemma length_filter_map_le:
  assumes "\<And>x. Q (f x) \<Longrightarrow> Q' x"
  shows "length (filter Q (map f xs)) \<le> length (filter Q' xs)"
  using assms by (induction xs) auto

lemma length_filter_filter_le: "length (filter Q (filter P xs)) \<le> length (filter Q xs)"
  by (induction xs) auto

lemma consistent_solo_tables_only:
  assumes "consistent s"
    and "split_claims s' = split_claims s"
    and "split_claim_participants s' = split_claim_participants s"
    and "item_ownership_flags s' = item_ownership_flags s"
    and "solo_split_apart s'" and "one_active_solo s'" and "item_claims_pkey s'"
  shows "consistent s'"
  using assms
  by (simp add: consistent_def one_active_split_def active_split_claims_def split_claims_pkey_def
      split_claim_participants_pkey_def split_claim_participants_fkey_def pending_below_target_def
      participant_count_def item_ownership_flags_pkey_def)

lemma active_solo_claims_append:
  assumes "item_claims s' = item_claims s @ [c]"
  shows "active_solo_claims s' j =
           active_solo_claims s j @ (if ic_item_id c = j \<and> ic_status c = Active then [c] else [])"
  by (simp add: active_solo_claims_def assms)

lemma createSoloClaim_consistent:
  assumes "consistent s" and "createSoloClaim s i u n = Inr s'"
  shows "consistent s'"
proof (rule consistent_solo_tables_only[OF assms(1)])
  note eff = createSoloClaim_Inr[OF assms(2)]
  let ?new = "\<lparr>ic_id = n, ic_item_id = i, ic_claimed_by = u, ic_status = Active, ic_fulfilled_at = None\<rparr>"
  have ic: "item_claims s' = item_claims s @ [?new]" by (simp add: eff(1))
  show "split_claims s' = split_claims s" "split_claim_participants s' = split_claim_participants s"
    "item_ownership_flags s' = item_ownership_flags s"
    by (simp_all add: eff(1))
  then have sc: "split_claims s' = split_claims s" by simp
  from assms(1) have "solo_split_apart s" by (simp add: consistent_def)
  with eff(2) show "solo_split_apart s'"
    unfolding solo_split_apart_def ic sc by (auto simp: list_all_iff list_ex_iff)
  from assms(1) have le: "length (active_solo_claims s j) \<le> 1" for j
    by (simp add: consistent_def one_active_solo_iff)
  from eff(5) have none: "active_solo_claims s i = []"
    unfolding active_solo_claims_def by (simp add: filter_empty_conv list_ex_iff)
  from assms(1) eff(4) show "item_claims_pkey s'"
    by (auto simp: consistent_def item_claims_pkey_def ic list_ex_iff)
  show "one_active_solo s'"
    unfolding one_active_solo_iff
  proof
    fix j
    show "length (active_solo_claims s' j) \<le> 1"
    proof (cases "j = i")
      case True
      then show ?thesis by (simp add: active_solo_claims_append[OF ic] none)
    next
      case False
      then show ?thesis using le[of j] by (simp add: active_solo_claims_append[OF ic])
    qed
  qed
qed

lemma one_active_solo_map:
  assumes "one_active_solo s" and "item_claims s' = map f (item_claims s)"
    and "\<And>c. ic_item_id (f c) = ic_item_id c"
    and "\<And>c. ic_status (f c) = Active \<Longrightarrow> ic_status c = Active"
  shows "one_active_solo s'"
  unfolding one_active_solo_iff
proof
  fix i
  have "length (active_solo_claims s' i) \<le> length (active_solo_claims s i)"
    unfolding active_solo_claims_def assms(2)
    by (rule length_filter_map_le) (auto simp: assms(3) dest: assms(4))
  also have "\<dots> \<le> 1" using assms(1) by (simp add: one_active_solo_iff)
  finally show "length (active_solo_claims s' i) \<le> 1" .
qed

lemma one_active_solo_filter:
  assumes "one_active_solo s" and "item_claims s' = filter P (item_claims s)"
  shows "one_active_solo s'"
  unfolding one_active_solo_iff
proof
  fix i
  have "length (active_solo_claims s' i) \<le> length (active_solo_claims s i)"
    unfolding active_solo_claims_def assms(2) by (rule length_filter_filter_le)
  also have "\<dots> \<le> 1" using assms(1) by (simp add: one_active_solo_iff)
  finally show "length (active_solo_claims s' i) \<le> 1" .
qed

lemma one_active_split_map:
  assumes "one_active_split s" and "split_claims s' = map g (split_claims s)"
    and "\<And>r. sc_item_id (g r) = sc_item_id r"
    and "\<And>r. sc_claim_status (g r) = Active \<Longrightarrow> sc_claim_status r = Active"
  shows "one_active_split s'"
  unfolding one_active_split_iff
proof
  fix i
  have "length (active_split_claims s' i) \<le> length (active_split_claims s i)"
    unfolding active_split_claims_def assms(2)
    by (rule length_filter_map_le) (auto simp: assms(3) dest: assms(4))
  also have "\<dots> \<le> 1" using assms(1) by (simp add: one_active_split_iff)
  finally show "length (active_split_claims s' i) \<le> 1" .
qed

lemma one_active_split_filter:
  assumes "one_active_split s" and "split_claims s' = filter P (split_claims s)"
  shows "one_active_split s'"
  unfolding one_active_split_iff
proof
  fix i
  have "length (active_split_claims s' i) \<le> length (active_split_claims s i)"
    unfolding active_split_claims_def assms(2) by (rule length_filter_filter_le)
  also have "\<dots> \<le> 1" using assms(1) by (simp add: one_active_split_iff)
  finally show "length (active_split_claims s' i) \<le> 1" .
qed

lemma solo_split_apart_shrink:
  assumes "solo_split_apart s"
    and "ic_item_id ` set (item_claims s') \<subseteq> ic_item_id ` set (item_claims s)"
    and "sc_item_id ` set (split_claims s') \<subseteq> sc_item_id ` set (split_claims s)"
  shows "solo_split_apart s'"
  unfolding solo_split_apart_def list_all_iff
proof (intro ballI)
  fix c sc
  assume "c \<in> set (item_claims s')" and "sc \<in> set (split_claims s')"
  then have "ic_item_id c \<in> ic_item_id ` set (item_claims s)"
    and "sc_item_id sc \<in> sc_item_id ` set (split_claims s)"
    using assms(2,3) by blast+
  then obtain c0 sc0 where "c0 \<in> set (item_claims s)" "ic_item_id c0 = ic_item_id c"
    and "sc0 \<in> set (split_claims s)" "sc_item_id sc0 = sc_item_id sc"
    by (auto simp: image_iff)
  with assms(1) show "ic_item_id c \<noteq> sc_item_id sc"
    unfolding solo_split_apart_def list_all_iff by metis
qed

lemma image_map_same:
  assumes "\<And>x. k (f x) = k x"
  shows "k ` set (map f xs) = k ` set xs"
  by (induction xs) (simp_all add: assms)

lemma image_filter_subset: "k ` set (filter P xs) \<subseteq> k ` set xs"
  by (rule image_mono) simp

lemma cancelSoloClaim_consistent:
  assumes "consistent s" and "cancelSoloClaim s claim caller = Inr s'"
  shows "consistent s'"
proof (rule consistent_solo_tables_only[OF assms(1)])
  note eff = cancelSoloClaim_Inr[OF assms(2)]
  show "split_claims s' = split_claims s" "split_claim_participants s' = split_claim_participants s"
    "item_ownership_flags s' = item_ownership_flags s"
    by (simp_all add: eff)
  from assms(1) have a: "solo_split_apart s" "one_active_solo s" by (simp_all add: consistent_def)
  show "solo_split_apart s'"
  proof (rule solo_split_apart_shrink[OF a(1)])
    let ?f = "\<lambda>c. if ic_id c = claim then c\<lparr>ic_status := Cancelled\<rparr> else c"
    have "item_claims s' = map ?f (item_claims s)" by (simp add: eff)
    moreover have "ic_item_id ` set (map ?f (item_claims s)) = ic_item_id ` set (item_claims s)"
      by (rule image_map_same) simp
    ultimately show "ic_item_id ` set (item_claims s') \<subseteq> ic_item_id ` set (item_claims s)" by simp
    show "sc_item_id ` set (split_claims s') \<subseteq> sc_item_id ` set (split_claims s)"
      by (simp add: eff)
  qed
  show "one_active_solo s'"
  proof -
    let ?f = "\<lambda>c. if ic_id c = claim then c\<lparr>ic_status := Cancelled\<rparr> else c"
    have 1: "item_claims s' = map ?f (item_claims s)" by (simp add: eff)
    have 2: "ic_item_id (?f c) = ic_item_id c" for c by simp
    have 3: "ic_status (?f c) = Active \<Longrightarrow> ic_status c = Active" for c
      by (cases "ic_id c = claim") simp_all
    show ?thesis by (rule one_active_solo_map[OF a(2) 1 2 3])
  qed
  show "item_claims_pkey s'"
  proof -
    let ?f = "\<lambda>c. if ic_id c = claim then c\<lparr>ic_status := Cancelled\<rparr> else c"
    have "item_claims s' = map ?f (item_claims s)" by (simp add: eff)
    moreover have "map ic_id (map ?f (item_claims s)) = map ic_id (item_claims s)"
      by (rule map_key_same) simp
    ultimately show ?thesis using assms(1) by (simp only: consistent_def item_claims_pkey_def)
  qed
qed

lemma delete_item_claim_consistent:
  assumes "consistent s"
  shows "consistent (delete_item_claim s uid claim)"
proof (rule consistent_solo_tables_only[OF assms(1)])
  show "split_claims (delete_item_claim s uid claim) = split_claims s"
    "split_claim_participants (delete_item_claim s uid claim) = split_claim_participants s"
    "item_ownership_flags (delete_item_claim s uid claim) = item_ownership_flags s"
    by (simp_all add: delete_item_claim_def)
  from assms(1) have a: "solo_split_apart s" "one_active_solo s" by (simp_all add: consistent_def)
  show "solo_split_apart (delete_item_claim s uid claim)"
  proof (rule solo_split_apart_shrink[OF a(1)])
    show "ic_item_id ` set (item_claims (delete_item_claim s uid claim)) \<subseteq> ic_item_id ` set (item_claims s)"
      by (auto simp: delete_item_claim_def)
    show "sc_item_id ` set (split_claims (delete_item_claim s uid claim)) \<subseteq> sc_item_id ` set (split_claims s)"
      by (simp add: delete_item_claim_def)
  qed
  show "one_active_solo (delete_item_claim s uid claim)"
  proof -
    have "item_claims (delete_item_claim s uid claim) =
            filter (\<lambda>c. \<not> (ic_id c = claim \<and> uid = ic_claimed_by c)) (item_claims s)"
      by (simp add: delete_item_claim_def)
    then show ?thesis by (rule one_active_solo_filter[OF a(2)])
  qed
  show "item_claims_pkey (delete_item_claim s uid claim)"
    using assms by (simp add: consistent_def item_claims_pkey_def delete_item_claim_def distinct_map_filter)
qed

lemma consistent_cong:
  assumes "item_claims s' = item_claims s" and "split_claims s' = split_claims s"
    and "split_claim_participants s' = split_claim_participants s"
    and "item_ownership_flags s' = item_ownership_flags s"
  shows "consistent s' = consistent s"
  by (simp add: consistent_def solo_split_apart_def one_active_solo_def active_solo_claims_def
      one_active_split_def active_split_claims_def split_claims_pkey_def
      split_claim_participants_pkey_def split_claim_participants_fkey_def pending_below_target_def
      participant_count_def item_ownership_flags_pkey_def item_claims_pkey_def assms)

lemma consistent_only_notifies:
  assumes "only_notifies s s'"
  shows "consistent s' = consistent s"
  by (rule consistent_cong) (simp_all add: only_notifies_tables[OF assms])

lemma consistentD:
  assumes "consistent s"
  shows "solo_split_apart s" "one_active_solo s" "one_active_split s" "split_claims_pkey s"
    "split_claim_participants_pkey s" "split_claim_participants_fkey s"
    "pending_below_target s" "item_ownership_flags_pkey s" "item_claims_pkey s"
  using assms by (simp_all add: consistent_def)

lemma participant_count_fresh:
  assumes "split_claim_participants_fkey s" and "\<not> list_ex (\<lambda>sc. sc_id sc = sid) (split_claims s)"
  shows "participant_count s sid = 0"
proof -
  have "\<not> scp_split_claim_id p = sid" if "p \<in> set (split_claim_participants s)" for p
  proof
    assume "scp_split_claim_id p = sid"
    moreover from assms(1) that have "list_ex (\<lambda>sc. sc_id sc = scp_split_claim_id p) (split_claims s)"
      by (simp add: split_claim_participants_fkey_def list_all_iff)
    ultimately show False using assms(2) by simp
  qed
  then show ?thesis by (simp add: participant_count_def filter_empty_conv)
qed

lemma insert_split_claim_consistent:
  assumes "consistent s" and "insert_split_claim s uid NEW = Inr s'"
    and "sc_claim_status NEW = Active" and "0 < sc_target_participants NEW"
  shows "consistent s'"
proof -
  note eff = insert_split_claim_Inr[OF assms(2)]
  note c = consistentD[OF assms(1)]
  have fresh: "\<not> list_ex (\<lambda>sc. sc_id sc = sc_id NEW) (split_claims s)" by (rule eff(13))
  have pc: "participant_count s' j = participant_count s j" for j
    by (simp add: participant_count_def eff(3))
  have "solo_split_apart s'"
    using c(1) eff(10) unfolding solo_split_apart_def eff(1,2)
    by (auto simp: list_all_iff list_ex_iff)
  moreover have "one_active_solo s'"
    using c(2) by (simp add: one_active_solo_def active_solo_claims_def eff(2))
  moreover have "one_active_split s'"
    unfolding one_active_split_iff
  proof
    fix j
    have le: "length (active_split_claims s j) \<le> 1" using c(3) by (simp add: one_active_split_iff)
    have none: "active_split_claims s (sc_item_id NEW) = []"
      using eff(14)[OF assms(3)] unfolding active_split_claims_def
      by (simp add: filter_empty_conv list_ex_iff)
    have app: "active_split_claims s' j =
                 active_split_claims s j @ (if sc_item_id NEW = j \<and> sc_claim_status NEW = Active then [NEW] else [])"
      by (simp add: active_split_claims_def eff(1))
    show "length (active_split_claims s' j) \<le> 1"
    proof (cases "sc_item_id NEW = j")
      case True
      then show ?thesis using none by (simp add: app)
    next
      case False
      then show ?thesis using le by (simp add: app)
    qed
  qed
  moreover have "split_claims_pkey s'"
    using c(4) fresh by (auto simp: split_claims_pkey_def eff(1) list_ex_iff)
  moreover have "split_claim_participants_pkey s'"
    using c(5) by (simp add: split_claim_participants_pkey_def eff(3))
  moreover have "split_claim_participants_fkey s'"
    using c(6) by (auto simp: split_claim_participants_fkey_def eff(1,3) list_all_iff list_ex_iff)
  moreover have "pending_below_target s'"
  proof -
    have "participant_count s (sc_id NEW) = 0"
      by (rule participant_count_fresh[OF c(6) fresh])
    with c(7) assms(4) show ?thesis
      by (simp add: pending_below_target_def eff(1) pc)
  qed
  moreover have "item_ownership_flags_pkey s'"
    using c(8) by (simp add: item_ownership_flags_pkey_def eff(4))
  moreover have "item_claims_pkey s'"
    using c(9) by (simp add: item_claims_pkey_def eff(2))
  ultimately show ?thesis by (simp add: consistent_def)
qed

lemma list_ex_key: "list_ex (\<lambda>x. k x = j) xs \<longleftrightarrow> j \<in> k ` set xs"
  by (auto simp: list_ex_iff)

lemma reaches_target_by_key:
  assumes "split_claims_pkey s" and "r \<in> set (split_claims s)"
  shows "reaches_target s (sc_id r) \<longleftrightarrow>
           sc_target_participants r \<le> int (participant_count s (sc_id r)) \<and> sc_status r = Pending"
proof -
  from assms have "select_into (filter (\<lambda>x. sc_id x = sc_id r) (split_claims s)) = Some r"
    unfolding split_claims_pkey_def by (rule select_into_by_key)
  then show ?thesis by (simp add: reaches_target_def participant_count_def)
qed

lemma insert_split_claim_participant_consistent:
  assumes "consistent s" and "insert_split_claim_participant s uid NEW now = Inr s'"
  shows "consistent s'"
proof -
  note eff = insert_split_claim_participant_Inr[OF assms(2)]
  note c = consistentD[OF assms(1)]
  let ?sid = "scp_split_claim_id NEW"
  let ?s1 = "s\<lparr>split_claim_participants := split_claim_participants s @ [NEW]\<rparr>"
  let ?g = "\<lambda>r. if sc_id r = ?sid then r\<lparr>sc_status := Confirmed, sc_confirmed_at := Some now\<rparr> else r"
  let ?h = "if reaches_target ?s1 ?sid then ?g else (\<lambda>r. r)"
  have sc: "split_claims s' = map ?h (split_claims s)"
    by (simp add: eff(2))
  have h_id: "sc_id (?h r) = sc_id r" and h_item: "sc_item_id (?h r) = sc_item_id r"
    and h_cs: "sc_claim_status (?h r) = sc_claim_status r"
    and h_target: "sc_target_participants (?h r) = sc_target_participants r" for r
    by simp_all
  have pc: "participant_count s' j = participant_count s j + (if j = ?sid then 1 else 0)" for j
    by (auto simp: participant_count_def eff(1))
  have pc1: "participant_count ?s1 j = participant_count s' j" for j
    by (simp add: participant_count_def eff(1))
  have "solo_split_apart s'"
  proof (rule solo_split_apart_shrink[OF c(1)])
    show "ic_item_id ` set (item_claims s') \<subseteq> ic_item_id ` set (item_claims s)"
      by (simp add: eff(3))
    have "sc_item_id ` set (map ?h (split_claims s)) = sc_item_id ` set (split_claims s)"
      by (rule image_map_same) (rule h_item)
    then show "sc_item_id ` set (split_claims s') \<subseteq> sc_item_id ` set (split_claims s)"
      by (simp only: sc)
  qed
  moreover have "one_active_solo s'"
    using c(2) by (simp add: one_active_solo_def active_solo_claims_def eff(3))
  moreover have "one_active_split s'"
    by (rule one_active_split_map[OF c(3) sc h_item]) (simp only: h_cs)
  moreover have "split_claims_pkey s'"
  proof -
    have "map sc_id (map ?h (split_claims s)) = map sc_id (split_claims s)"
      by (simp only: map_map o_def h_id)
    with c(4) show ?thesis by (simp only: split_claims_pkey_def sc)
  qed
  moreover have "split_claim_participants_pkey s'"
    using c(5) eff(11)
    by (auto simp: split_claim_participants_pkey_def eff(1) list_ex_iff)
  moreover have "split_claim_participants_fkey s'"
  proof -
    have ids: "sc_id ` set (split_claims s') = sc_id ` set (split_claims s)"
      unfolding sc by (rule image_map_same) (rule h_id)
    have ex: "list_ex (\<lambda>sc. sc_id sc = j) (split_claims s') = list_ex (\<lambda>sc. sc_id sc = j) (split_claims s)" for j
      by (simp only: list_ex_key ids)
    from eff(10) have "list_ex (\<lambda>sc. sc_id sc = ?sid) (split_claims s)"
      by (auto simp: users_can_join_split_claims_def list_ex_iff)
    with c(6) show ?thesis
      by (simp add: split_claim_participants_fkey_def ex eff(1))
  qed
  moreover have "pending_below_target s'"
    unfolding pending_below_target_def list_all_iff
  proof (intro ballI impI)
    fix r'
    assume r': "r' \<in> set (split_claims s')" and pend: "sc_status r' = Pending"
    from r' obtain r where r: "r \<in> set (split_claims s)" and r'_def: "r' = ?h r"
      unfolding sc by auto
    from c(7) r have below: "sc_status r = Pending \<Longrightarrow> int (participant_count s (sc_id r)) < sc_target_participants r"
      by (simp add: pending_below_target_def list_all_iff)
    show "int (participant_count s' (sc_id r')) < sc_target_participants r'"
    proof (cases "sc_id r = ?sid")
      case False
      then have "r' = r" by (simp add: r'_def)
      with False pend below show ?thesis by (simp add: pc)
    next
      case True
      have pk1: "split_claims_pkey ?s1" using c(4) by (simp add: split_claims_pkey_def)
      have r1: "r \<in> set (split_claims ?s1)" using r by simp
      have rt: "reaches_target ?s1 ?sid \<longleftrightarrow>
                  sc_target_participants r \<le> int (participant_count ?s1 ?sid) \<and> sc_status r = Pending"
        using reaches_target_by_key[OF pk1 r1] by (simp only: True)
      show ?thesis
      proof (cases "reaches_target ?s1 ?sid")
        case True
        with \<open>sc_id r = ?sid\<close> have "sc_status r' = Confirmed" by (simp add: r'_def)
        with pend show ?thesis by simp
      next
        case False
        then have "r' = r" by (simp add: r'_def)
        with False rt pend \<open>sc_id r = ?sid\<close> show ?thesis by (simp add: pc1)
      qed
    qed
  qed
  moreover have "item_ownership_flags_pkey s'"
    using c(8) by (simp add: item_ownership_flags_pkey_def eff(4))
  moreover have "item_claims_pkey s'"
    using c(9) by (simp add: item_claims_pkey_def eff(3))
  ultimately show ?thesis by (simp add: consistent_def)
qed

lemma initiateSplit_consistent:
  assumes "consistent s" and "initiateSplit s item u target n now = Inr s'"
  shows "consistent s'"
proof -
  let ?new = "\<lparr>sc_id = n, sc_item_id = item, sc_initiated_by = u, sc_target_participants = target,
               sc_status = Pending, sc_claim_status = Active, sc_confirmed_at = None,
               sc_fulfilled_at = None\<rparr>"
  from assms(2) have t: "2 \<le> target"
    by (auto simp: initiateSplit_def split: if_splits)
  with assms(2) obtain s1 where 1: "insert_split_claim s u ?new = Inr s1"
    and 2: "insert_split_claim_participant s1 u \<lparr>scp_split_claim_id = n, scp_user_id = u\<rparr> now = Inr s'"
    by (auto simp: initiateSplit_def split: if_splits sum.splits)
  have "consistent s1"
    by (rule insert_split_claim_consistent[OF assms(1) 1]) (use t in simp_all)
  then show ?thesis by (rule insert_split_claim_participant_consistent[OF _ 2])
qed

lemma joinSplit_consistent:
  assumes "consistent s" and "joinSplit s sid u now = Inr s'"
  shows "consistent s'"
  using assms unfolding joinSplit_def by (rule insert_split_claim_participant_consistent)

lemma participant_count_filter_le:
  assumes "split_claim_participants s' = filter P (split_claim_participants s)"
  shows "participant_count s' j \<le> participant_count s j"
  unfolding participant_count_def assms by (rule length_filter_filter_le)

lemma delete_split_claims_consistent:
  assumes "consistent s"
  shows "consistent (delete_split_claims s doomed)"
proof -
  let ?s' = "delete_split_claims s doomed"
  note c = consistentD[OF assms(1)]
  note t = delete_split_claims_tables[of s doomed]
  have "solo_split_apart ?s'"
  proof (rule solo_split_apart_shrink[OF c(1)])
    show "ic_item_id ` set (item_claims ?s') \<subseteq> ic_item_id ` set (item_claims s)"
      by (simp add: t(3))
    show "sc_item_id ` set (split_claims ?s') \<subseteq> sc_item_id ` set (split_claims s)"
      unfolding t(1) by (rule image_filter_subset)
  qed
  moreover have "one_active_solo ?s'"
    using c(2) by (simp add: one_active_solo_def active_solo_claims_def t(3))
  moreover have "one_active_split ?s'"
    by (rule one_active_split_filter[OF c(3) t(1)])
  moreover have "split_claims_pkey ?s'"
    using c(4) unfolding split_claims_pkey_def t(1) by (rule distinct_map_filter)
  moreover have "split_claim_participants_pkey ?s'"
    using c(5) unfolding split_claim_participants_pkey_def t(2) by (rule distinct_map_filter)
  moreover have "split_claim_participants_fkey ?s'"
    unfolding split_claim_participants_fkey_def list_all_iff
  proof
    fix p
    assume "p \<in> set (split_claim_participants ?s')"
    then have p: "p \<in> set (split_claim_participants s)"
      and nd: "scp_split_claim_id p \<notin> sc_id ` {sc \<in> set (split_claims s). doomed sc}"
      by (simp_all add: t(2))
    from c(6) p obtain sc where sc: "sc \<in> set (split_claims s)" "sc_id sc = scp_split_claim_id p"
      by (auto simp: split_claim_participants_fkey_def list_all_iff list_ex_iff)
    have "\<not> doomed sc"
    proof
      assume "doomed sc"
      with sc have "scp_split_claim_id p \<in> sc_id ` {sc \<in> set (split_claims s). doomed sc}"
        by (intro image_eqI[where x = sc]) simp_all
      with nd show False by simp
    qed
    with sc show "list_ex (\<lambda>sc. sc_id sc = scp_split_claim_id p) (split_claims ?s')"
      by (auto simp: t(1) list_ex_iff)
  qed
  moreover have "pending_below_target ?s'"
    unfolding pending_below_target_def list_all_iff
  proof (intro ballI impI)
    fix r
    assume "r \<in> set (split_claims ?s')" and pend: "sc_status r = Pending"
    then have "r \<in> set (split_claims s)" by (simp add: t(1))
    with c(7) pend have "int (participant_count s (sc_id r)) < sc_target_participants r"
      by (simp add: pending_below_target_def list_all_iff)
    moreover have "participant_count ?s' (sc_id r) \<le> participant_count s (sc_id r)"
      by (rule participant_count_filter_le[OF t(2)])
    ultimately show "int (participant_count ?s' (sc_id r)) < sc_target_participants r" by simp
  qed
  moreover have "item_ownership_flags_pkey ?s'"
    using c(8) by (simp add: item_ownership_flags_pkey_def t(4))
  moreover have "item_claims_pkey ?s'"
    using c(9) by (simp add: item_claims_pkey_def t(3))
  ultimately show ?thesis by (simp add: consistent_def)
qed

lemma delete_split_claim_participant_consistent:
  assumes "consistent s"
  shows "consistent (delete_split_claim_participant s uid sid u)"
proof -
  let ?s' = "delete_split_claim_participant s uid sid u"
  note c = consistentD[OF assms(1)]
  note t = delete_split_claim_participant_tables[of s uid sid u]
  have "solo_split_apart ?s'"
    using c(1) by (simp add: solo_split_apart_def t(2,3))
  moreover have "one_active_solo ?s'"
    using c(2) by (simp add: one_active_solo_def active_solo_claims_def t(3))
  moreover have "one_active_split ?s'"
    using c(3) by (simp add: one_active_split_def active_split_claims_def t(2))
  moreover have "split_claims_pkey ?s'"
    using c(4) by (simp add: split_claims_pkey_def t(2))
  moreover have "split_claim_participants_pkey ?s'"
    using c(5) unfolding split_claim_participants_pkey_def t(1) by (rule distinct_map_filter)
  moreover have "split_claim_participants_fkey ?s'"
    using c(6) by (simp add: split_claim_participants_fkey_def list_all_iff t(1,2))
  moreover have "pending_below_target ?s'"
    unfolding pending_below_target_def list_all_iff
  proof (intro ballI impI)
    fix r
    assume "r \<in> set (split_claims ?s')" and pend: "sc_status r = Pending"
    then have "r \<in> set (split_claims s)" by (simp add: t(2))
    with c(7) pend have "int (participant_count s (sc_id r)) < sc_target_participants r"
      by (simp add: pending_below_target_def list_all_iff)
    moreover have "participant_count ?s' (sc_id r) \<le> participant_count s (sc_id r)"
      by (rule participant_count_filter_le[OF t(1)])
    ultimately show "int (participant_count ?s' (sc_id r)) < sc_target_participants r" by simp
  qed
  moreover have "item_ownership_flags_pkey ?s'"
    using c(8) by (simp add: item_ownership_flags_pkey_def t(4))
  moreover have "item_claims_pkey ?s'"
    using c(9) by (simp add: item_claims_pkey_def t(3))
  ultimately show ?thesis by (simp add: consistent_def)
qed

lemma leaveSplit_consistent:
  assumes "consistent s" and "leaveSplit s sid u = Inr s'"
  shows "consistent s'"
  using assms(2) delete_split_claims_consistent[OF assms(1)]
    delete_split_claim_participant_consistent[OF assms(1)]
  by (auto simp: leaveSplit_def delete_split_claim_def split: option.splits if_splits)

lemma consistent_status_maps:
  assumes "consistent s"
    and ic: "item_claims s' = map f (item_claims s)"
    and sc: "split_claims s' = map g (split_claims s)"
    and ps: "split_claim_participants s' = split_claim_participants s"
    and fl: "item_ownership_flags s' = item_ownership_flags s"
    and f_id: "\<And>c. ic_id (f c) = ic_id c"
    and f_item: "\<And>c. ic_item_id (f c) = ic_item_id c"
    and f_active: "\<And>c. ic_status (f c) = Active \<Longrightarrow> ic_status c = Active"
    and g_id: "\<And>r. sc_id (g r) = sc_id r"
    and g_item: "\<And>r. sc_item_id (g r) = sc_item_id r"
    and g_status: "\<And>r. sc_status (g r) = sc_status r"
    and g_target: "\<And>r. sc_target_participants (g r) = sc_target_participants r"
    and g_active: "\<And>r. sc_claim_status (g r) = Active \<Longrightarrow> sc_claim_status r = Active"
  shows "consistent s'"
proof -
  note c = consistentD[OF assms(1)]
  have pc: "participant_count s' j = participant_count s j" for j
    by (simp add: participant_count_def ps)
  have ids: "sc_id ` set (split_claims s') = sc_id ` set (split_claims s)"
    unfolding sc by (rule image_map_same) (rule g_id)
  have "solo_split_apart s'"
  proof (rule solo_split_apart_shrink[OF c(1)])
    have "ic_item_id ` set (map f (item_claims s)) = ic_item_id ` set (item_claims s)"
      by (rule image_map_same) (rule f_item)
    then show "ic_item_id ` set (item_claims s') \<subseteq> ic_item_id ` set (item_claims s)"
      by (simp only: ic)
    have "sc_item_id ` set (map g (split_claims s)) = sc_item_id ` set (split_claims s)"
      by (rule image_map_same) (rule g_item)
    then show "sc_item_id ` set (split_claims s') \<subseteq> sc_item_id ` set (split_claims s)"
      by (simp only: sc)
  qed
  moreover have "one_active_solo s'"
    by (rule one_active_solo_map[OF c(2) ic f_item f_active])
  moreover have "one_active_split s'"
    by (rule one_active_split_map[OF c(3) sc g_item g_active])
  moreover have "split_claims_pkey s'"
  proof -
    have "map sc_id (map g (split_claims s)) = map sc_id (split_claims s)"
      by (simp only: map_map o_def g_id)
    with c(4) show ?thesis by (simp only: split_claims_pkey_def sc)
  qed
  moreover have "split_claim_participants_pkey s'"
    using c(5) by (simp add: split_claim_participants_pkey_def ps)
  moreover have "split_claim_participants_fkey s'"
    using c(6) by (simp only: split_claim_participants_fkey_def list_ex_key ids ps)
  moreover have "pending_below_target s'"
    using c(7) by (simp add: pending_below_target_def sc list_all_iff pc g_id g_status g_target)
  moreover have "item_ownership_flags_pkey s'"
    using c(8) by (simp add: item_ownership_flags_pkey_def fl)
  moreover have "item_claims_pkey s'"
  proof -
    have "map ic_id (map f (item_claims s)) = map ic_id (item_claims s)"
      by (rule map_key_same) (rule f_id)
    with c(9) show ?thesis by (simp only: item_claims_pkey_def ic)
  qed
  ultimately show ?thesis by (simp add: consistent_def)
qed

lemma fulfill_claims_for_item_consistent:
  assumes "consistent s" and "fulfill_claims_for_item s i ow now = Inr (s', rows)"
  shows "consistent s'"
proof -
  from assms(2) obtain f g where ic: "item_claims s' = map f (item_claims s)"
    and sc: "split_claims s' = map g (split_claims s)"
    and ps: "split_claim_participants s' = split_claim_participants s"
    and fl: "item_ownership_flags s' = item_ownership_flags s"
    and f: "\<And>c. f c = c \<or> f c = c\<lparr>ic_status := Fulfilled, ic_fulfilled_at := Some now\<rparr>"
    and g: "\<And>r. g r = r \<or> g r = r\<lparr>sc_claim_status := Fulfilled, sc_fulfilled_at := Some now\<rparr>"
  proof (cases "select_into (filter (\<lambda>c. ic_item_id c = i \<and> ic_status c = Active) (item_claims s))")
    case (Some solo)
    let ?f = "\<lambda>c. if ic_id c = ic_id solo then c\<lparr>ic_status := Fulfilled, ic_fulfilled_at := Some now\<rparr> else c"
    from assms(2) Some have "item_claims s' = map ?f (item_claims s)"
      "split_claims s' = map (\<lambda>r. r) (split_claims s)"
      "split_claim_participants s' = split_claim_participants s"
      "item_ownership_flags s' = item_ownership_flags s"
      by (auto simp: fulfill_claims_for_item_def Let_def split: option.splits)
    then show ?thesis by (rule that) simp_all
  next
    case None
    note solo = None
    show ?thesis
    proof (cases "select_into (filter (\<lambda>sc. sc_item_id sc = i \<and> sc_claim_status sc = Active) (split_claims s))")
      case None
      with solo assms(2) have "s' = s" by (simp add: fulfill_claims_for_item_def Let_def)
      then have "item_claims s' = map (\<lambda>c. c) (item_claims s)"
        "split_claims s' = map (\<lambda>r. r) (split_claims s)"
        "split_claim_participants s' = split_claim_participants s"
        "item_ownership_flags s' = item_ownership_flags s"
        by simp_all
      then show ?thesis by (rule that) simp_all
    next
      case (Some split)
      let ?g = "\<lambda>r. if sc_id r = sc_id split then r\<lparr>sc_claim_status := Fulfilled, sc_fulfilled_at := Some now\<rparr> else r"
      from assms(2) solo Some have "item_claims s' = map (\<lambda>c. c) (item_claims s)"
        "split_claims s' = map ?g (split_claims s)"
        "split_claim_participants s' = split_claim_participants s"
        "item_ownership_flags s' = item_ownership_flags s"
        by (auto simp: fulfill_claims_for_item_def Let_def split: option.splits)
      then show ?thesis by (rule that) simp_all
    qed
  qed
  show ?thesis
  proof (rule consistent_status_maps[OF assms(1) ic sc ps fl])
    fix c r
    show "ic_id (f c) = ic_id c" using f[of c] by auto
    show "ic_item_id (f c) = ic_item_id c" using f[of c] by auto
    show "ic_status (f c) = Active \<Longrightarrow> ic_status c = Active" using f[of c] by auto
    show "sc_id (g r) = sc_id r" using g[of r] by auto
    show "sc_item_id (g r) = sc_item_id r" using g[of r] by auto
    show "sc_status (g r) = sc_status r" using g[of r] by auto
    show "sc_target_participants (g r) = sc_target_participants r" using g[of r] by auto
    show "sc_claim_status (g r) = Active \<Longrightarrow> sc_claim_status r = Active" using g[of r] by auto
  qed
qed

lemma notify_owner_on_flag_created_Inr:
  assumes "notify_owner_on_flag_created s NEW = Inr s'"
  shows "only_notifies s s'"
  using assms
  by (auto simp: notify_owner_on_flag_created_def Let_def split: option.splits prod.splits)

lemma notify_on_flag_resolution_Inr:
  assumes "notify_on_flag_resolution s OLD NEW = Inr s'"
  shows "only_notifies s s'"
  using assms
  by (auto simp: notify_on_flag_resolution_def split: option.splits prod.splits if_splits)

lemma insert_item_ownership_flag_Inr:
  assumes "insert_item_ownership_flag s uid NEW = Inr s'"
  shows "item_ownership_flags s' = item_ownership_flags s @ [NEW]"
    and "item_claims s' = item_claims s" and "split_claims s' = split_claims s"
    and "split_claim_participants s' = split_claim_participants s"
    and "\<not> list_ex (\<lambda>f. fl_id f = fl_id NEW) (item_ownership_flags s)"
    and "\<not> list_ex (\<lambda>f. fl_item_id f = fl_item_id NEW) (item_ownership_flags s)"
    and "users_can_flag_items_on_viewable_wishlists s uid NEW"
proof -
  let ?s1 = "s\<lparr>item_ownership_flags := item_ownership_flags s @ [NEW]\<rparr>"
  from assms have conds: "users_can_flag_items_on_viewable_wishlists s uid NEW"
    "\<not> list_ex (\<lambda>f. fl_id f = fl_id NEW) (item_ownership_flags s)"
    "\<not> list_ex (\<lambda>f. fl_item_id f = fl_item_id NEW) (item_ownership_flags s)"
    by (auto simp: insert_item_ownership_flag_def split: if_splits)
  with assms have "notify_owner_on_flag_created ?s1 NEW = Inr s' \<or> s' = ?s1"
    by (auto simp: insert_item_ownership_flag_def split: if_splits)
  then have "only_notifies ?s1 s'"
    by (auto dest: notify_owner_on_flag_created_Inr)
  note t = only_notifies_tables[OF this]
  show "item_ownership_flags s' = item_ownership_flags s @ [NEW]"
    "item_claims s' = item_claims s" "split_claims s' = split_claims s"
    "split_claim_participants s' = split_claim_participants s"
    by (simp_all add: t)
  show "\<not> list_ex (\<lambda>f. fl_id f = fl_id NEW) (item_ownership_flags s)"
    "\<not> list_ex (\<lambda>f. fl_item_id f = fl_item_id NEW) (item_ownership_flags s)"
    "users_can_flag_items_on_viewable_wishlists s uid NEW"
    by (rule conds)+
qed

lemma consistent_flags_only:
  assumes "consistent s"
    and "item_claims s' = item_claims s" and "split_claims s' = split_claims s"
    and "split_claim_participants s' = split_claim_participants s"
    and "item_ownership_flags_pkey s'"
  shows "consistent s'"
proof -
  let ?m = "s'\<lparr>item_ownership_flags := item_ownership_flags s\<rparr>"
  have "consistent ?m = consistent s"
    by (rule consistent_cong) (simp_all add: assms)
  with assms(1) have "consistent ?m" by simp
  then show ?thesis using assms(5)
    by (simp add: consistent_def solo_split_apart_def one_active_solo_def active_solo_claims_def
      one_active_split_def active_split_claims_def split_claims_pkey_def
      split_claim_participants_pkey_def split_claim_participants_fkey_def pending_below_target_def
      participant_count_def item_claims_pkey_def)
qed

lemma createFlag_consistent:
  assumes "consistent s" and "createFlag s item u n = Inr s'"
  shows "consistent s'"
proof -
  note eff = insert_item_ownership_flag_Inr[OF assms(2)[unfolded createFlag_def]]
  from consistentD(8)[OF assms(1)] eff(5) have "item_ownership_flags_pkey s'"
    by (auto simp: item_ownership_flags_pkey_def eff(1) list_ex_iff)
  with assms(1) eff(2,3,4) show ?thesis by (rule consistent_flags_only)
qed

lemma deleteFlag_consistent:
  assumes "consistent s"
  shows "consistent (deleteFlag s flag uid)"
proof (rule consistent_flags_only[OF assms])
  show "item_ownership_flags_pkey (deleteFlag s flag uid)"
    using consistentD(8)[OF assms]
    by (simp add: item_ownership_flags_pkey_def deleteFlag_def Let_def distinct_map_filter)
qed (simp_all add: deleteFlag_def Let_def)

lemma handle_ownership_flag_confirmed_consistent:
  assumes "consistent s"
  shows "consistent (handle_ownership_flag_confirmed s OLD NEW)"
proof (cases "fl_status NEW = Flag_confirmed \<and> fl_status OLD = Flag_pending")
  case False
  with assms show ?thesis by (auto simp: handle_ownership_flag_confirmed_def)
next
  case True
  let ?s1 = "s\<lparr>item_claims := filter (\<lambda>c. ic_item_id c \<noteq> fl_item_id NEW) (item_claims s)\<rparr>"
  have "consistent ?s1"
  proof (rule consistent_solo_tables_only[OF assms])
    show "solo_split_apart ?s1"
    proof (rule solo_split_apart_shrink[OF consistentD(1)[OF assms]])
      show "ic_item_id ` set (item_claims ?s1) \<subseteq> ic_item_id ` set (item_claims s)"
        by auto
    qed simp
    show "one_active_solo ?s1"
      by (rule one_active_solo_filter[OF consistentD(2)[OF assms], where P = "\<lambda>c. ic_item_id c \<noteq> fl_item_id NEW"]) simp
    show "item_claims_pkey ?s1"
      using consistentD(9)[OF assms] by (simp add: item_claims_pkey_def distinct_map_filter)
  qed simp_all
  then have "consistent (delete_split_claims ?s1 (\<lambda>sc. sc_item_id sc = fl_item_id NEW))"
    by (rule delete_split_claims_consistent)
  with True show ?thesis by (simp add: handle_ownership_flag_confirmed_def)
qed

lemma after_update_on_item_ownership_flags_consistent:
  assumes "consistent s" and "after_update_on_item_ownership_flags s changed = Inr s'"
  shows "consistent s'"
  using assms
proof (induction changed arbitrary: s)
  case Nil
  then show ?case by simp
next
  case (Cons ch changed)
  obtain OLD NEW where ch: "ch = (OLD, NEW)" by (cases ch)
  from Cons.prems(2) obtain s1 where 1: "notify_on_flag_resolution s OLD NEW = Inr s1"
    and 2: "after_update_on_item_ownership_flags (handle_ownership_flag_confirmed s1 OLD NEW) changed = Inr s'"
    by (auto simp: ch split: sum.splits)
  from notify_on_flag_resolution_Inr[OF 1] Cons.prems(1) have "consistent s1"
    by (simp add: consistent_only_notifies)
  then have "consistent (handle_ownership_flag_confirmed s1 OLD NEW)"
    by (rule handle_ownership_flag_confirmed_consistent)
  then show ?case using 2 by (rule Cons.IH)
qed

lemma set_surroundings_tables:
  "wishlists (set_surroundings s ws items fs sel ps) = ws"
  "wishlist_items (set_surroundings s ws items fs sel ps) = items"
  "friendships (set_surroundings s ws items fs sel ps) = fs"
  "wishlist_selected_friends (set_surroundings s ws items fs sel ps) = sel"
  "profiles (set_surroundings s ws items fs sel ps) = ps"
  "item_claims (set_surroundings s ws items fs sel ps) = item_claims s"
  "split_claims (set_surroundings s ws items fs sel ps) = split_claims s"
  "split_claim_participants (set_surroundings s ws items fs sel ps) = split_claim_participants s"
  by (simp_all add: set_surroundings_def Let_def)

lemma set_surroundings_flags:
  "item_ownership_flags (set_surroundings s ws items fs sel ps) =
     filter (\<lambda>f. \<not> ((fl_item_id f \<in> set (map wi_id (wishlist_items s)) \<and>
                      fl_item_id f \<notin> set (map wi_id items)) \<or>
                     (fl_flagged_by f \<in> set (map fst (profiles s)) \<and>
                      fl_flagged_by f \<notin> set (map fst ps))))
       (item_ownership_flags s)"
  by (simp add: set_surroundings_def Let_def)

lemma consistent_surroundings:
  assumes "consistent s"
  shows "consistent (set_surroundings s ws items fs sel ps)"
proof -
  from consistentD(8)[OF assms]
  have "distinct (map fl_id (item_ownership_flags (set_surroundings s ws items fs sel ps)))"
    unfolding set_surroundings_flags item_ownership_flags_pkey_def by (rule distinct_map_filter)
  then have "item_ownership_flags_pkey (set_surroundings s ws items fs sel ps)"
    by (simp only: item_ownership_flags_pkey_def)
  then show ?thesis
    by (intro consistent_flags_only[OF assms]) (simp_all only: set_surroundings_tables)
qed

lemma resolveFlag_consistent:
  assumes "consistent s" and "resolveFlag s flag owner decision now = Inr s'"
  shows "consistent s'"
proof -
  let ?visible = "\<lambda>f. fl_id f = flag \<and> owners_can_update_flags_on_their_items s owner f"
  let ?set = "\<lambda>f. f\<lparr>fl_status := decided_status decision, fl_resolved_at := Some now\<rparr>"
  let ?u = "\<lambda>f. if ?visible f then ?set f else f"
  let ?s1 = "s\<lparr>item_ownership_flags := map ?u (item_ownership_flags s)\<rparr>"
  have "map fl_id (map ?u (item_ownership_flags s)) = map fl_id (item_ownership_flags s)"
    by (rule map_key_same) simp
  with consistentD(8)[OF assms(1)] have "distinct (map fl_id (map ?u (item_ownership_flags s)))"
    by (simp only: item_ownership_flags_pkey_def)
  moreover have "item_ownership_flags ?s1 = map ?u (item_ownership_flags s)" by simp
  ultimately have "item_ownership_flags_pkey ?s1"
    by (simp only: item_ownership_flags_pkey_def)
  then have "consistent ?s1"
    by (intro consistent_flags_only[OF assms(1)]) simp_all
  moreover from assms(2) have "after_update_on_item_ownership_flags ?s1
      (map (\<lambda>f. (f, ?set f)) (filter ?visible (item_ownership_flags s))) = Inr s'"
    by (simp add: resolveFlag_def Let_def)
  ultimately show ?thesis by (rule after_update_on_item_ownership_flags_consistent)
qed

lemma exec_consistent:
  assumes "consistent s" and "exec s operation = Inr s'"
  shows "consistent s'"
proof (cases operation)
  case (CreateSoloClaim item claimer new_id)
  with assms show ?thesis by (auto intro: createSoloClaim_consistent)
next
  case (CancelSoloClaim claim caller)
  with assms show ?thesis by (auto intro: cancelSoloClaim_consistent)
next
  case (Unclaim uid claim)
  with assms show ?thesis by (auto intro: delete_item_claim_consistent)
next
  case (InitiateSplit item initiator target new_id now)
  with assms show ?thesis by (auto intro: initiateSplit_consistent)
next
  case (JoinSplit split user now)
  with assms show ?thesis by (auto intro: joinSplit_consistent)
next
  case (LeaveSplit split user)
  with assms show ?thesis by (auto intro: leaveSplit_consistent)
next
  case (FulfillClaimsForItem item owner now)
  with assms show ?thesis
    by (auto split: sum.splits prod.splits intro: fulfill_claims_for_item_consistent)
next
  case (CreateFlag item flagger new_id)
  with assms show ?thesis by (auto intro: createFlag_consistent)
next
  case (ResolveFlag flag owner decision now)
  with assms show ?thesis by (auto intro: resolveFlag_consistent)
next
  case (DeleteFlag flag uid)
  with assms show ?thesis by (auto intro: deleteFlag_consistent)
qed

lemma reachable_consistent: "reachable s \<Longrightarrow> consistent s"
proof (induction rule: reachable.induct)
  case (initial s)
  then show ?case
    by (simp add: consistent_def solo_split_apart_def one_active_solo_def one_active_split_def
        split_claims_pkey_def split_claim_participants_pkey_def split_claim_participants_fkey_def
        pending_below_target_def item_ownership_flags_pkey_def item_claims_pkey_def)
next
  case (step s operation s')
  then show ?case by (auto intro: exec_consistent)
next
  case surroundings
  from surroundings.IH show ?case by (rule consistent_surroundings)
qed


section \<open>The claims\<close>

subsection \<open>Visibility\<close>

text \<open>
  Claim C8. For a wishlist whose privacy is private, \<open>can_view_wishlist\<close> is false for
  every viewer other than the owner (NULL included), whatever the friendships and the
  selected friends are; for the owner it is true, whatever the privacy is.
\<close>

theorem private_wishlist_only_owner:
  assumes "w \<in> set (wishlists s)" and "distinct (map w_id (wishlists s))"
  shows "can_view_wishlist s (Some (w_id w)) (Some (w_user_id w)) \<and>
         (w_privacy w = ''private'' \<longrightarrow>
            (\<forall>viewer. viewer \<noteq> Some (w_user_id w) \<longrightarrow>
               \<not> can_view_wishlist s (Some (w_id w)) viewer))"
proof -
  from assms have "select_into (filter (\<lambda>x. w_id x = w_id w) (wishlists s)) = Some w"
    by (intro select_into_by_key)
  then show ?thesis
    by (simp add: can_view_wishlist_def)
qed

text \<open>
  In the example Bob is a friend of Ann and a selected friend of her private wishlist 11,
  and still cannot view it; Ann can.
\<close>

theorem private_wishlist_only_owner_witness:
  "can_view_wishlist ex_db (Some 11) (Some 1) \<and>
   \<not> can_view_wishlist ex_db (Some 11) (Some 2) \<and>
   are_friends ex_db (Some 1) (Some 2) \<and>
   (11, 2) \<in> set (wishlist_selected_friends ex_db)"
proof -
  let ?w = "\<lparr>w_id = 11, w_user_id = 1, w_privacy = ''private'', w_name = ''Secret''\<rparr>"
  have 1: "?w \<in> set (wishlists ex_db)" by (simp add: ex_db_def)
  have 2: "distinct (map w_id (wishlists ex_db))" by (simp add: ex_db_def)
  have 3: "are_friends ex_db (Some 1) (Some 2)" by (simp add: are_friends_def ex_db_def)
  have 4: "(11, 2) \<in> set (wishlist_selected_friends ex_db)" by (simp add: ex_db_def)
  from private_wishlist_only_owner[OF 1 2] 3 4 show ?thesis by simp
qed

text \<open>
  Claim C10. \<open>can_view_wishlist\<close> has no failing branch: called with an id that no
  wishlist has (or with NULL), it returns false for every viewer. The row of NULLs falls
  through the owner check and the \<open>CASE\<close> to \<open>are_friends(NULL, viewer_id)\<close>.
\<close>

theorem can_view_missing_wishlist:
  assumes "\<not> list_ex (\<lambda>w. Some (w_id w) = wishlist_id) (wishlists s)"
  shows "\<not> can_view_wishlist s wishlist_id viewer_id"
proof -
  from assms have "filter (\<lambda>w. Some (w_id w) = wishlist_id) (wishlists s) = []"
    by (simp add: filter_empty_conv list_ex_iff)
  then show ?thesis
    by (simp add: can_view_wishlist_def select_into_def)
qed

text \<open>No wishlist has the id 12.\<close>

theorem can_view_missing_wishlist_witness:
  "\<not> list_ex (\<lambda>w. Some (w_id w) = Some 12) (wishlists ex_db) \<and>
   \<not> can_view_wishlist ex_db (Some 12) (Some 1) \<and>
   \<not> can_view_wishlist ex_db (Some 12) None \<and>
   \<not> can_view_wishlist ex_db None (Some 2)"
proof -
  have 1: "\<not> list_ex (\<lambda>w. Some (w_id w) = Some 12) (wishlists ex_db)" by (simp add: ex_db_def)
  have 2: "\<not> list_ex (\<lambda>w. Some (w_id w) = None) (wishlists ex_db)" by (simp add: ex_db_def)
  from can_view_missing_wishlist[OF 1, of "Some 1"] can_view_missing_wishlist[OF 1, of None]
    can_view_missing_wishlist[OF 2, of "Some 2"] 1
  show ?thesis by simp
qed

subsection \<open>Reachable states, and what no operation touches\<close>

lemma reachable_run: "reachable s \<Longrightarrow> reachable (run s operations)"
proof (induction operations arbitrary: s)
  case Nil
  then show ?case by simp
next
  case (Cons operation operations)
  show ?case
  proof (cases "exec s operation")
    case (Inl e)
    with Cons show ?thesis by simp
  next
    case (Inr s')
    with Cons.prems have "reachable s'" by (rule reachable.step)
    with Inr Cons.IH show ?thesis by simp
  qed
qed

lemma reachable_ex_db: "reachable ex_db"
  by (rule reachable.initial) (simp_all add: ex_db_def catalogue_keys_def)

lemma same_surroundings_refl [simp]: "same_surroundings s s"
  by (simp add: same_surroundings_def)

lemma same_surroundings_trans:
  "same_surroundings s s1 \<Longrightarrow> same_surroundings s1 s2 \<Longrightarrow> same_surroundings s s2"
  by (simp add: same_surroundings_def)

lemma only_notifies_same_surroundings: "only_notifies s s' \<Longrightarrow> same_surroundings s s'"
  by (simp add: same_surroundings_def only_notifies_tables)

lemma fulfill_claims_for_item_frame:
  assumes "fulfill_claims_for_item s i ow now = Inr (s', rows)"
  shows "same_surroundings s s'"
    and "item_ownership_flags s' = item_ownership_flags s"
    and "split_claim_participants s' = split_claim_participants s"
  using assms
  by (auto simp: fulfill_claims_for_item_def Let_def same_surroundings_def split: option.splits)

lemma handle_ownership_flag_confirmed_frame:
  shows "same_surroundings s (handle_ownership_flag_confirmed s OLD NEW)"
    and "item_ownership_flags (handle_ownership_flag_confirmed s OLD NEW) = item_ownership_flags s"
  by (simp_all add: handle_ownership_flag_confirmed_def same_surroundings_def delete_split_claims_tables)

lemma after_update_on_item_ownership_flags_frame:
  assumes "after_update_on_item_ownership_flags s changed = Inr s'"
  shows "same_surroundings s s' \<and> item_ownership_flags s' = item_ownership_flags s"
  using assms
proof (induction changed arbitrary: s)
  case Nil
  then show ?case by simp
next
  case (Cons ch changed)
  obtain OLD NEW where ch: "ch = (OLD, NEW)" by (cases ch)
  from Cons.prems obtain s1 where 1: "notify_on_flag_resolution s OLD NEW = Inr s1"
    and 2: "after_update_on_item_ownership_flags (handle_ownership_flag_confirmed s1 OLD NEW) changed = Inr s'"
    by (auto simp: ch split: sum.splits)
  note n = notify_on_flag_resolution_Inr[OF 1]
  from Cons.IH[OF 2] handle_ownership_flag_confirmed_frame[of s1 OLD NEW]
    only_notifies_same_surroundings[OF n] only_notifies_tables(9)[OF n]
  show ?case by (simp add: same_surroundings_def)
qed

lemma resolveFlag_frame:
  assumes "resolveFlag s flag owner decision now = Inr s'"
  shows "same_surroundings s s'"
    and "item_ownership_flags s' =
           map (\<lambda>f. if fl_id f = flag \<and> owners_can_update_flags_on_their_items s owner f
                     then f\<lparr>fl_status := decided_status decision, fl_resolved_at := Some now\<rparr>
                     else f) (item_ownership_flags s)"
  using after_update_on_item_ownership_flags_frame[OF assms[unfolded resolveFlag_def Let_def]]
  by (simp_all add: same_surroundings_def)

lemma exec_same_surroundings:
  assumes "exec s operation = Inr s'"
  shows "same_surroundings s s'"
proof (cases operation)
  case (CreateSoloClaim item claimer new_id)
  with assms have "createSoloClaim s item claimer new_id = Inr s'" by simp
  from createSoloClaim_Inr(1)[OF this] show ?thesis by (simp add: same_surroundings_def)
next
  case (CancelSoloClaim claim caller)
  with assms have "cancelSoloClaim s claim caller = Inr s'" by simp
  from cancelSoloClaim_Inr[OF this] show ?thesis by (simp add: same_surroundings_def)
next
  case (Unclaim uid claim)
  with assms show ?thesis by (auto simp: same_surroundings_def delete_item_claim_def)
next
  case (InitiateSplit item initiator target new_id now)
  with assms obtain s1 new where 1: "insert_split_claim s initiator new = Inr s1"
    and 2: "insert_split_claim_participant s1 initiator
              \<lparr>scp_split_claim_id = new_id, scp_user_id = initiator\<rparr> now = Inr s'"
    by (auto simp: initiateSplit_def split: if_splits sum.splits)
  from insert_split_claim_Inr(5-9)[OF 1] insert_split_claim_participant_Inr(5-9)[OF 2]
  show ?thesis by (simp add: same_surroundings_def)
next
  case (JoinSplit split user now)
  with assms have "insert_split_claim_participant s user
      \<lparr>scp_split_claim_id = split, scp_user_id = user\<rparr> now = Inr s'"
    by (simp add: joinSplit_def)
  from insert_split_claim_participant_Inr(5-9)[OF this]
  show ?thesis by (simp add: same_surroundings_def)
next
  case (LeaveSplit split user)
  with assms show ?thesis
    by (auto simp: leaveSplit_def delete_split_claim_def same_surroundings_def
        delete_split_claims_tables delete_split_claim_participant_tables
        split: option.splits if_splits)
next
  case (FulfillClaimsForItem item owner now)
  with assms obtain rows where "fulfill_claims_for_item s item owner now = Inr (s', rows)"
    by (auto split: sum.splits prod.splits)
  then show ?thesis by (rule fulfill_claims_for_item_frame)
next
  case (CreateFlag item flagger new_id)
  let ?new = "\<lparr>fl_id = new_id, fl_item_id = item, fl_flagged_by = flagger,
               fl_status = Flag_pending, fl_resolved_at = None\<rparr>"
  let ?s1 = "s\<lparr>item_ownership_flags := item_ownership_flags s @ [?new]\<rparr>"
  from CreateFlag assms have "notify_owner_on_flag_created ?s1 ?new = Inr s'"
    by (auto simp: createFlag_def insert_item_ownership_flag_def split: if_splits)
  from only_notifies_same_surroundings[OF notify_owner_on_flag_created_Inr[OF this]]
  show ?thesis by (simp add: same_surroundings_def)
next
  case (ResolveFlag flag owner decision now)
  with assms have "resolveFlag s flag owner decision now = Inr s'" by simp
  then show ?thesis by (rule resolveFlag_frame)
next
  case (DeleteFlag flag uid)
  with assms show ?thesis by (auto simp: deleteFlag_def Let_def same_surroundings_def)
qed

lemma reachable_catalogue_keys: "reachable s \<Longrightarrow> catalogue_keys s"
proof (induction rule: reachable.induct)
  case (step s operation s')
  from exec_same_surroundings[OF step.hyps(2)] step.IH show ?case
    by (simp add: same_surroundings_def catalogue_keys_def)
qed

lemma same_surroundings_visibility:
  assumes "same_surroundings s s'"
  shows "are_friends s' a b = are_friends s a b"
    and "can_view_wishlist s' wl v = can_view_wishlist s wl v"
    and "viewable_item_of_other s' item u = viewable_item_of_other s item u"
    and "item_owner s' item = item_owner s item"
    and "item_wishlist s' item = item_wishlist s item"
    and "can_view_item s' item u = can_view_item s item u"
proof -
  from assms have eq: "wishlists s' = wishlists s" "wishlist_items s' = wishlist_items s"
    "friendships s' = friendships s" "wishlist_selected_friends s' = wishlist_selected_friends s"
    by (simp_all add: same_surroundings_def)
  show 1: "are_friends s' a b = are_friends s a b" for a b
    by (simp add: are_friends_def eq)
  show 2: "can_view_wishlist s' wl v = can_view_wishlist s wl v" for wl v
    by (simp add: can_view_wishlist_def eq 1)
  show "viewable_item_of_other s' item u = viewable_item_of_other s item u"
    by (simp add: viewable_item_of_other_def eq 2)
  have 3: "get_split_claim_item_info s' item = get_split_claim_item_info s item"
    by (simp add: get_split_claim_item_info_def eq)
  show "item_owner s' item = item_owner s item" by (simp add: item_owner_def 3)
  show 4: "item_wishlist s' item = item_wishlist s item" by (simp add: item_wishlist_def 3)
  show "can_view_item s' item u = can_view_item s item u" by (simp add: can_view_item_def 4 2 cong: option.case_cong)
qed

lemma filter_by_key:
  assumes "distinct (map key rows)" and "r \<in> set rows"
  shows "filter (\<lambda>x. key x = key r) rows = [r]"
  using assms
proof (induction rows)
  case Nil
  then show ?case by simp
next
  case (Cons a rows)
  show ?case
  proof (cases "a = r")
    case True
    with Cons.prems have "\<forall>x\<in>set rows. key x \<noteq> key r" by (auto simp: image_iff)
    then have "filter (\<lambda>x. key x = key r) rows = []" by (simp add: filter_empty_conv)
    with True show ?thesis by simp
  next
    case False
    with Cons.prems have "r \<in> set rows" "key a \<noteq> key r" by (auto simp: image_iff)
    with Cons show ?thesis by simp
  qed
qed

lemma viewable_item_of_other_iff:
  assumes "catalogue_keys s"
  shows "viewable_item_of_other s item u \<longleftrightarrow>
           (\<exists>owner. item_owner s item = Some owner \<and> owner \<noteq> u) \<and> can_view_item s item u"
proof
  assume "viewable_item_of_other s item u"
  then obtain wi w where wi: "wi \<in> set (wishlist_items s)" "wi_id wi = item"
    and w: "w \<in> set (wishlists s)" "w_id w = wi_wishlist_id wi"
    and ok: "w_user_id w \<noteq> u" "can_view_wishlist s (Some (w_id w)) (Some u)"
    by (auto simp: viewable_item_of_other_def list_ex_iff)
  from assms wi have 1: "filter (\<lambda>x. wi_id x = item) (wishlist_items s) = [wi]"
    using filter_by_key[of wi_id "wishlist_items s" wi] by (simp add: catalogue_keys_def)
  from assms w have 2: "filter (\<lambda>x. w_id x = wi_wishlist_id wi) (wishlists s) = [w]"
    using filter_by_key[of w_id "wishlists s" w] by (simp add: catalogue_keys_def)
  have "get_split_claim_item_info s item =
          [\<lparr>item_title = wi_title wi, info_wishlist_id = w_id w, wishlist_name = w_name w,
            wishlist_owner_id = w_user_id w\<rparr>]"
    by (simp add: get_split_claim_item_info_def 1 2)
  with ok show "(\<exists>owner. item_owner s item = Some owner \<and> owner \<noteq> u) \<and> can_view_item s item u"
    by (simp add: item_owner_def can_view_item_def item_wishlist_def select_into_def)
next
  assume a: "(\<exists>owner. item_owner s item = Some owner \<and> owner \<noteq> u) \<and> can_view_item s item u"
  then obtain info where info: "select_into (get_split_claim_item_info s item) = Some info"
    and ok: "wishlist_owner_id info \<noteq> u" "can_view_wishlist s (Some (info_wishlist_id info)) (Some u)"
    by (auto simp: item_owner_def can_view_item_def item_wishlist_def split: option.splits)
  from info have "info \<in> set (get_split_claim_item_info s item)"
    by (auto simp: select_into_def split: list.splits)
  then obtain wi w where "wi \<in> set (wishlist_items s)" "wi_id wi = item"
    "w \<in> set (wishlists s)" "w_id w = wi_wishlist_id wi"
    "info = \<lparr>item_title = wi_title wi, info_wishlist_id = w_id w, wishlist_name = w_name w,
             wishlist_owner_id = w_user_id w\<rparr>"
    by (auto simp: get_split_claim_item_info_def)
  note found = this
  from found(5) ok have "w_user_id w \<noteq> u" "can_view_wishlist s (Some (w_id w)) (Some u)"
    by simp_all
  with found(1-4) show "viewable_item_of_other s item u"
    unfolding viewable_item_of_other_def list_ex_iff
    by (intro bexI[of _ wi] conjI bexI[of _ w]) simp_all
qed

lemma solo_split_apartD:
  assumes "solo_split_apart s" and "c \<in> set (item_claims s)" and "sc \<in> set (split_claims s)"
  shows "ic_item_id c \<noteq> sc_item_id sc"
  using assms by (simp add: solo_split_apart_def list_all_iff)

subsection \<open>Mutual exclusion of solo and split claims\<close>

lemma at_most_one_active_claim:
  assumes "consistent s"
  shows "length (active_solo_claims s item) + length (active_split_claims s item) \<le> 1"
proof (cases "active_solo_claims s item = []")
  case True
  with consistentD(3)[OF assms] show ?thesis by (simp add: one_active_split_iff)
next
  case False
  then obtain c where "c \<in> set (item_claims s)" "ic_item_id c = item"
    by (auto simp: active_solo_claims_def filter_empty_conv)
  note c = this
  from consistentD(1)[OF assms]
  have apart: "ic_item_id c \<noteq> sc_item_id sc"
    if "c \<in> set (item_claims s)" "sc \<in> set (split_claims s)" for c sc
    using that by (simp add: solo_split_apart_def list_all_iff)
  have "sc_item_id sc \<noteq> item" if "sc \<in> set (split_claims s)" for sc
    using apart[OF c(1) that] c(2) by simp
  then have "active_split_claims s item = []"
    by (auto simp: active_split_claims_def filter_empty_conv)
  with consistentD(2)[OF assms] show ?thesis by (simp add: one_active_solo_iff)
qed

lemma createSoloClaim_Conflict_active_solo:
  assumes "list_ex (\<lambda>c. ic_item_id c = item \<and> ic_status c = Active) (item_claims s)"
  shows "createSoloClaim s item u n = Inl Conflict"
  using assms
  by (simp add: createSoloClaim_def insert_item_claim_def split: option.splits sum.splits)

lemma createSoloClaim_Conflict_split:
  assumes "list_ex (\<lambda>sc. sc_item_id sc = item) (split_claims s)"
  shows "createSoloClaim s item u n = Inl Conflict"
  using assms
  by (simp add: createSoloClaim_def insert_item_claim_def prevent_solo_on_split_item_def)

lemma initiateSplit_Conflict_solo:
  assumes "list_ex (\<lambda>c. ic_item_id c = item) (item_claims s)" and "2 \<le> target"
  shows "initiateSplit s item u target n now = Inl Conflict"
  using assms
  by (simp add: initiateSplit_def insert_split_claim_def prevent_split_on_claimed_item_def)

lemma initiateSplit_Conflict_active_split:
  assumes "list_ex (\<lambda>sc. sc_item_id sc = item \<and> sc_claim_status sc = Active) (split_claims s)"
    and "2 \<le> target"
  shows "initiateSplit s item u target n now = Inl Conflict"
  using assms
  by (simp add: initiateSplit_def insert_split_claim_def split: option.splits sum.splits)

lemma initiateSplit_Inr:
  assumes "initiateSplit s item u target n now = Inr s'"
  shows "list_ex (\<lambda>sc. sc_item_id sc = item \<and> sc_claim_status sc = Active) (split_claims s')"
proof -
  let ?new = "\<lparr>sc_id = n, sc_item_id = item, sc_initiated_by = u, sc_target_participants = target,
               sc_status = Pending, sc_claim_status = Active, sc_confirmed_at = None,
               sc_fulfilled_at = None\<rparr>"
  from assms obtain s1 where 1: "insert_split_claim s u ?new = Inr s1"
    and 2: "insert_split_claim_participant s1 u \<lparr>scp_split_claim_id = n, scp_user_id = u\<rparr> now = Inr s'"
    by (auto simp: initiateSplit_def split: if_splits sum.splits)
  have new: "?new \<in> set (split_claims s1)"
    by (simp add: insert_split_claim_Inr(1)[OF 1])
  let ?g = "\<lambda>r. if sc_id r = n then r\<lparr>sc_status := Confirmed, sc_confirmed_at := Some now\<rparr> else r"
  from insert_split_claim_participant_Inr(2)[OF 2]
  have "split_claims s' = map ?g (split_claims s1) \<or> split_claims s' = split_claims s1"
    by (simp split: if_splits)
  then have "?g ?new \<in> set (split_claims s') \<or> ?new \<in> set (split_claims s')"
  proof
    assume "split_claims s' = map ?g (split_claims s1)"
    moreover from new have "?g ?new \<in> set (map ?g (split_claims s1))"
      unfolding set_map by (rule imageI)
    ultimately show ?thesis by simp
  next
    assume "split_claims s' = split_claims s1"
    with new show ?thesis by simp
  qed
  then obtain r where "r \<in> set (split_claims s')" "sc_item_id r = item" "sc_claim_status r = Active"
    by auto
  then show ?thesis
    unfolding list_ex_iff by blast
qed

text \<open>
  When the operations run one after the other, each on what the one before has committed,
  an item has at most one active claim, solo and split claims counted together: once a
  solo claim or a split has been created, every further \<open>createSoloClaim\<close> and every
  further \<open>initiateSplit\<close> (with a target of at least two) on the item fails with
  \<open>Conflict\<close>.
\<close>

theorem mutual_exclusion:
  assumes "reachable s"
  shows "length (active_solo_claims s item) + length (active_split_claims s item) \<le> 1 \<and>
         (\<forall>s1. createSoloClaim s item u n = Inr s1 \<longrightarrow>
               createSoloClaim s1 item u' n' = Inl Conflict \<and>
               (2 \<le> target' \<longrightarrow> initiateSplit s1 item u' target' n' now' = Inl Conflict)) \<and>
         (\<forall>s1. initiateSplit s item u target n now = Inr s1 \<longrightarrow>
               createSoloClaim s1 item u' n' = Inl Conflict \<and>
               (2 \<le> target' \<longrightarrow> initiateSplit s1 item u' target' n' now' = Inl Conflict))"
proof (intro conjI allI impI)
  from assms have "consistent s" by (rule reachable_consistent)
  then show "length (active_solo_claims s item) + length (active_split_claims s item) \<le> 1"
    by (rule at_most_one_active_claim)
next
  fix s1
  assume "createSoloClaim s item u n = Inr s1"
  from createSoloClaim_Inr(1)[OF this]
  have a: "list_ex (\<lambda>c. ic_item_id c = item \<and> ic_status c = Active) (item_claims s1)"
    by simp
  then show "createSoloClaim s1 item u' n' = Inl Conflict"
    by (rule createSoloClaim_Conflict_active_solo)
  from a have b: "list_ex (\<lambda>c. ic_item_id c = item) (item_claims s1)"
    by (auto simp: list_ex_iff)
  assume "2 \<le> target'"
  with b show "initiateSplit s1 item u' target' n' now' = Inl Conflict"
    by (rule initiateSplit_Conflict_solo)
next
  fix s1
  assume "initiateSplit s item u target n now = Inr s1"
  then have a: "list_ex (\<lambda>sc. sc_item_id sc = item \<and> sc_claim_status sc = Active) (split_claims s1)"
    by (rule initiateSplit_Inr)
  then have "list_ex (\<lambda>sc. sc_item_id sc = item) (split_claims s1)"
    by (auto simp: list_ex_iff)
  then show "createSoloClaim s1 item u' n' = Inl Conflict"
    by (rule createSoloClaim_Conflict_split)
  assume "2 \<le> target'"
  with a show "initiateSplit s1 item u' target' n' now' = Inl Conflict"
    by (rule initiateSplit_Conflict_active_split)
qed

text \<open>
  In the example Bob's claim, or Bob's split, on the book makes Cy's claim and Cy's split
  fail with \<open>Conflict\<close>.
\<close>

theorem mutual_exclusion_witness:
  "reachable ex_claimed \<and> reachable ex_split \<and>
   createSoloClaim ex_db 100 2 600 = Inr ex_claimed \<and>
   initiateSplit ex_db 100 2 2 500 7 = Inr ex_split \<and>
   length (active_solo_claims ex_claimed 100) + length (active_split_claims ex_claimed 100) \<le> 1 \<and>
   length (active_solo_claims ex_split 100) + length (active_split_claims ex_split 100) \<le> 1 \<and>
   createSoloClaim ex_claimed 100 3 601 = Inl Conflict \<and>
   initiateSplit ex_claimed 100 3 2 601 8 = Inl Conflict \<and>
   createSoloClaim ex_split 100 3 601 = Inl Conflict \<and>
   initiateSplit ex_split 100 3 2 601 8 = Inl Conflict"
proof -
  have r0: "reachable ex_db" by (rule reachable_ex_db)
  have r1: "reachable ex_claimed" unfolding ex_claimed_def by (rule reachable_run[OF r0])
  have r2: "reachable ex_split" unfolding ex_split_def by (rule reachable_run[OF r0])
  have e1: "createSoloClaim ex_db 100 2 600 = Inr ex_claimed" by code_simp
  have e2: "initiateSplit ex_db 100 2 2 500 7 = Inr ex_split" by code_simp
  note m0 = mutual_exclusion[OF r0, where item = 100 and u = 2 and u' = 3 and n' = 601
      and target' = 2 and now' = 8 and target = 2 and now = 7]
  from m0[where n = 600] e1
  have a: "createSoloClaim ex_claimed 100 3 601 = Inl Conflict"
    "initiateSplit ex_claimed 100 3 2 601 8 = Inl Conflict" by simp_all
  from m0[where n = 500] e2
  have b: "createSoloClaim ex_split 100 3 601 = Inl Conflict"
    "initiateSplit ex_split 100 3 2 601 8 = Inl Conflict" by simp_all
  from mutual_exclusion[OF r1, where item = 100] mutual_exclusion[OF r2, where item = 100]
  have c: "length (active_solo_claims ex_claimed 100) + length (active_split_claims ex_claimed 100) \<le> 1"
    "length (active_solo_claims ex_split 100) + length (active_split_claims ex_split 100) \<le> 1"
    by blast+
  from r1 r2 e1 e2 a b c show ?thesis by blast
qed

text \<open>
  Claim C1. The claim does not hold for a solo claim and a split that are created at the
  same moment. What keeps the two kinds of claim apart is the pair of row triggers
  \<open>prevent_solo_on_split_item\<close> and \<open>prevent_split_on_claimed_item\<close>, each of them a
  query on the other table, and a query does not see a row that another transaction has
  inserted and not yet committed. The partial unique indexes do make the second of two
  inserts wait for the first, but each of them covers one table only. In the example Bob's
  \<open>createSoloClaim\<close> and Cy's \<open>initiateSplit\<close> both begin on \<open>ex_db\<close>, where the book
  has no claim: both triggers pass and both transactions succeed, they write different
  tables, and in \<open>ex_raced\<close>, which holds what both have written, the book has an
  active solo claim and an active split claim. Run after the other has committed, either
  of the two is refused, and it is the trigger that refuses it, not an index.
\<close>

theorem solo_and_split_race:
  "createSoloClaim ex_db 100 2 600 = Inr ex_claimed \<and>
   initiateSplit ex_db 100 3 2 500 7 = Inr ex_split_cy \<and>
   item_claims ex_db = [] \<and> split_claims ex_db = [] \<and>
   item_claims ex_split_cy = [] \<and> split_claims ex_claimed = [] \<and>
   item_claims ex_raced = item_claims ex_claimed \<and>
   split_claims ex_raced = split_claims ex_split_cy \<and>
   map ic_claimed_by (active_solo_claims ex_raced 100) = [2] \<and>
   map sc_initiated_by (active_split_claims ex_raced 100) = [3] \<and>
   length (active_solo_claims ex_raced 100) + length (active_split_claims ex_raced 100) = 2 \<and>
   prevent_solo_on_split_item ex_db
     \<lparr>ic_id = 600, ic_item_id = 100, ic_claimed_by = 2, ic_status = Active, ic_fulfilled_at = None\<rparr>
     = None \<and>
   prevent_split_on_claimed_item ex_db
     \<lparr>sc_id = 500, sc_item_id = 100, sc_initiated_by = 3, sc_target_participants = 2,
      sc_status = Pending, sc_claim_status = Active, sc_confirmed_at = None, sc_fulfilled_at = None\<rparr>
     = None \<and>
   insert_split_claim ex_claimed 3
     \<lparr>sc_id = 500, sc_item_id = 100, sc_initiated_by = 3, sc_target_participants = 2,
      sc_status = Pending, sc_claim_status = Active, sc_confirmed_at = None, sc_fulfilled_at = None\<rparr>
     = Inl (Raise_exception ''Item already has a solo claim'') \<and>
   insert_item_claim ex_split_cy 2
     \<lparr>ic_id = 600, ic_item_id = 100, ic_claimed_by = 2, ic_status = Active, ic_fulfilled_at = None\<rparr>
     = Inl (Raise_exception ''Item already has a split claim in progress'') \<and>
   initiateSplit ex_claimed 100 3 2 500 7 = Inl Conflict \<and>
   createSoloClaim ex_split_cy 100 2 600 = Inl Conflict"
proof -
  have "createSoloClaim ex_db 100 2 600 = Inr ex_claimed" by code_simp
  moreover have "initiateSplit ex_db 100 3 2 500 7 = Inr ex_split_cy" by code_simp
  moreover have "item_claims ex_db = []" "split_claims ex_db = []" by (simp_all add: ex_db_def)
  moreover have "item_claims ex_split_cy = []" "split_claims ex_claimed = []" by code_simp+
  moreover have "item_claims ex_raced = item_claims ex_claimed"
    "split_claims ex_raced = split_claims ex_split_cy" by (simp_all add: ex_raced_def)
  moreover have "map ic_claimed_by (active_solo_claims ex_raced 100) = [2]" by code_simp
  moreover have "map sc_initiated_by (active_split_claims ex_raced 100) = [3]" by code_simp
  moreover have "length (active_solo_claims ex_raced 100) +
      length (active_split_claims ex_raced 100) = 2" by code_simp
  moreover have "prevent_solo_on_split_item ex_db
     \<lparr>ic_id = 600, ic_item_id = 100, ic_claimed_by = 2, ic_status = Active, ic_fulfilled_at = None\<rparr>
     = None" by code_simp
  moreover have "prevent_split_on_claimed_item ex_db
     \<lparr>sc_id = 500, sc_item_id = 100, sc_initiated_by = 3, sc_target_participants = 2,
      sc_status = Pending, sc_claim_status = Active, sc_confirmed_at = None, sc_fulfilled_at = None\<rparr>
     = None" by code_simp
  moreover have "insert_split_claim ex_claimed 3
     \<lparr>sc_id = 500, sc_item_id = 100, sc_initiated_by = 3, sc_target_participants = 2,
      sc_status = Pending, sc_claim_status = Active, sc_confirmed_at = None, sc_fulfilled_at = None\<rparr>
     = Inl (Raise_exception ''Item already has a solo claim'')" by code_simp
  moreover have "insert_item_claim ex_split_cy 2
     \<lparr>ic_id = 600, ic_item_id = 100, ic_claimed_by = 2, ic_status = Active, ic_fulfilled_at = None\<rparr>
     = Inl (Raise_exception ''Item already has a split claim in progress'')" by code_simp
  moreover have "initiateSplit ex_claimed 100 3 2 500 7 = Inl Conflict" by code_simp
  moreover have "createSoloClaim ex_split_cy 100 2 600 = Inl Conflict" by code_simp
  ultimately show ?thesis by (intro conjI)
qed

subsection \<open>Claiming again after a cancellation\<close>

lemma createSoloClaim_succeeds:
  assumes "\<not> list_ex (\<lambda>sc. sc_item_id sc = item) (split_claims s)"
    and "viewable_item_of_other s item u"
    and "\<not> list_ex (\<lambda>c. ic_id c = n) (item_claims s)"
    and "\<not> list_ex (\<lambda>c. ic_item_id c = item \<and> ic_status c = Active) (item_claims s)"
  shows "createSoloClaim s item u n =
           Inr (s\<lparr>item_claims := item_claims s @
                    [\<lparr>ic_id = n, ic_item_id = item, ic_claimed_by = u, ic_status = Active,
                      ic_fulfilled_at = None\<rparr>]\<rparr>)"
  using assms
  by (simp add: createSoloClaim_def insert_item_claim_def prevent_solo_on_split_item_def
      users_can_claim_items_on_viewable_wishlists_def)

text \<open>
  Claim C6. In a reachable state, let \<open>c\<close> be an active solo claim. When its claimer
  cancels it, anybody who may claim the item (not the owner, and able to view the
  wishlist) can claim it again: \<open>createSoloClaim\<close> succeeds, the cancelled row is
  still in \<open>item_claims\<close>, and the new claim is the one active claim of the item. The
  unique index only covers the rows with \<open>status = 'active'\<close>.
\<close>

theorem reclaim_after_cancel:
  assumes "reachable s"
    and "c \<in> set (item_claims s)" and "ic_status c = Active"
    and "item_owner s (ic_item_id c) \<noteq> Some claimer" and "can_view_item s (ic_item_id c) claimer"
    and "\<not> list_ex (\<lambda>x. ic_id x = new_id) (item_claims s)"
  shows "\<exists>s1 s2. cancelSoloClaim s (ic_id c) (ic_claimed_by c) = Inr s1 \<and>
           createSoloClaim s1 (ic_item_id c) claimer new_id = Inr s2 \<and>
           c\<lparr>ic_status := Cancelled\<rparr> \<in> set (item_claims s2) \<and>
           active_solo_claims s2 (ic_item_id c) =
             [\<lparr>ic_id = new_id, ic_item_id = ic_item_id c, ic_claimed_by = claimer,
               ic_status = Active, ic_fulfilled_at = None\<rparr>]"
proof -
  let ?item = "ic_item_id c"
  let ?f = "\<lambda>x. if ic_id x = ic_id c then x\<lparr>ic_status := Cancelled\<rparr> else x"
  let ?s1 = "s\<lparr>item_claims := map ?f (item_claims s)\<rparr>"
  let ?new = "\<lparr>ic_id = new_id, ic_item_id = ?item, ic_claimed_by = claimer,
               ic_status = Active, ic_fulfilled_at = None\<rparr>"
  let ?s2 = "?s1\<lparr>item_claims := item_claims ?s1 @ [?new]\<rparr>"
  from assms(1) have cons: "consistent s" by (rule reachable_consistent)
  from assms(1) have keys: "catalogue_keys s" by (rule reachable_catalogue_keys)
  note k = consistentD[OF cons]
  have sel: "select_into (filter (\<lambda>x. ic_id x = ic_id c) (item_claims s)) = Some c"
    using k(9) assms(2) unfolding item_claims_pkey_def by (rule select_into_by_key)
  have cancel: "cancelSoloClaim s (ic_id c) (ic_claimed_by c) = Inr ?s1"
    by (simp add: cancelSoloClaim_def sel assms(3))
  have only: "x = c" if "x \<in> set (item_claims s)" "ic_item_id x = ?item" "ic_status x = Active" for x
  proof -
    have "length (active_solo_claims s ?item) \<le> 1"
      using k(2) by (simp add: one_active_solo_iff)
    moreover have "c \<in> set (active_solo_claims s ?item)" "x \<in> set (active_solo_claims s ?item)"
      using assms(2,3) that by (simp_all add: active_solo_claims_def)
    ultimately show ?thesis
      by (cases "active_solo_claims s ?item") auto
  qed
  have none: "\<not> list_ex (\<lambda>x. ic_item_id x = ?item \<and> ic_status x = Active) (item_claims ?s1)"
  proof
    assume "list_ex (\<lambda>x. ic_item_id x = ?item \<and> ic_status x = Active) (item_claims ?s1)"
    then obtain x where x: "x \<in> set (item_claims s)" "ic_item_id (?f x) = ?item" "ic_status (?f x) = Active"
      by (auto simp: list_ex_iff)
    then have "ic_id x \<noteq> ic_id c" by (cases "ic_id x = ic_id c") simp_all
    with x have "ic_item_id x = ?item" "ic_status x = Active" by simp_all
    with x(1) have "x = c" by (rule only)
    with \<open>ic_id x \<noteq> ic_id c\<close> show False by simp
  qed
  have nosplit: "\<not> list_ex (\<lambda>sc. sc_item_id sc = ?item) (split_claims ?s1)"
  proof
    assume "list_ex (\<lambda>sc. sc_item_id sc = ?item) (split_claims ?s1)"
    then obtain sc where sc: "sc \<in> set (split_claims s)" "sc_item_id sc = ?item"
      by (auto simp: list_ex_iff)
    from solo_split_apartD[OF k(1) assms(2) sc(1)] sc(2) show False by simp
  qed
  from assms(4,5) obtain wl where "item_wishlist s ?item = Some wl"
    by (auto simp: can_view_item_def split: option.splits)
  then obtain owner where "item_owner s ?item = Some owner"
    by (auto simp: item_wishlist_def item_owner_def)
  with assms(4,5) have "viewable_item_of_other s ?item claimer"
    by (simp add: viewable_item_of_other_iff[OF keys])
  moreover have "same_surroundings s ?s1" by (simp add: same_surroundings_def)
  ultimately have view: "viewable_item_of_other ?s1 ?item claimer"
    by (simp only: same_surroundings_visibility)
  have fresh: "\<not> list_ex (\<lambda>x. ic_id x = new_id) (item_claims ?s1)"
    using assms(6) by (auto simp: list_ex_iff)
  have create: "createSoloClaim ?s1 ?item claimer new_id = Inr ?s2"
    by (rule createSoloClaim_succeeds[OF nosplit view fresh none])
  have kept: "c\<lparr>ic_status := Cancelled\<rparr> \<in> set (item_claims ?s2)"
  proof -
    from assms(2) have "?f c \<in> set (map ?f (item_claims s))" unfolding set_map by (rule imageI)
    then show ?thesis by simp
  qed
  from none have "filter (\<lambda>x. ic_item_id x = ?item \<and> ic_status x = Active) (item_claims ?s1) = []"
    by (simp add: filter_empty_conv list_ex_iff)
  then have active: "active_solo_claims ?s2 ?item = [?new]"
    by (simp add: active_solo_claims_def)
  from cancel create kept active show ?thesis by blast
qed

text \<open>Bob cancels his claim on the book and Cy claims it.\<close>

theorem reclaim_after_cancel_witness:
  "reachable ex_claimed \<and>
   item_claims ex_claimed =
     [\<lparr>ic_id = 600, ic_item_id = 100, ic_claimed_by = 2, ic_status = Active, ic_fulfilled_at = None\<rparr>] \<and>
   item_owner ex_claimed 100 = Some 1 \<and> can_view_item ex_claimed 100 3 \<and>
   (\<exists>s1 s2. cancelSoloClaim ex_claimed 600 2 = Inr s1 \<and>
            createSoloClaim s1 100 3 601 = Inr s2 \<and>
            \<lparr>ic_id = 600, ic_item_id = 100, ic_claimed_by = 2, ic_status = Cancelled,
              ic_fulfilled_at = None\<rparr> \<in> set (item_claims s2) \<and>
            active_solo_claims s2 100 =
              [\<lparr>ic_id = 601, ic_item_id = 100, ic_claimed_by = 3, ic_status = Active,
                ic_fulfilled_at = None\<rparr>])"
proof -
  let ?c = "\<lparr>ic_id = 600, ic_item_id = 100, ic_claimed_by = 2, ic_status = Active, ic_fulfilled_at = None\<rparr>"
  have r: "reachable ex_claimed"
    unfolding ex_claimed_def by (rule reachable_run[OF reachable_ex_db])
  have t: "item_claims ex_claimed = [?c]" by code_simp
  have o: "item_owner ex_claimed 100 = Some 1" by code_simp
  have v: "can_view_item ex_claimed 100 3" by code_simp
  have 1: "?c \<in> set (item_claims ex_claimed)" by (simp add: t)
  have 2: "ic_status ?c = Active" by simp
  have 3: "item_owner ex_claimed (ic_item_id ?c) \<noteq> Some 3" by (simp add: o)
  have 4: "can_view_item ex_claimed (ic_item_id ?c) 3" using v by simp
  have 5: "\<not> list_ex (\<lambda>x. ic_id x = 601) (item_claims ex_claimed)" by (simp add: t)
  from reclaim_after_cancel[OF r 1 2 3 4 5] r t o v show ?thesis by simp
qed

subsection \<open>Creating a solo claim\<close>

text \<open>
  Claim C5. \<open>createSoloClaim\<close> does fail with \<open>Conflict\<close> for the owner, for a
  claimer who cannot view the wishlist and for an item with an active solo or split claim.
  It does not succeed in every other case: \<open>prevent_solo_on_split_item\<close> looks for any
  row of \<open>split_claims\<close> with the item, whatever its \<open>claim_status\<close>, so a
  split claim that was fulfilled (and is not active) still blocks the item. In the
  example Bob and Cy split the book and Ann marks it as received; Eve is a friend of
  Ann, can view the wishlist, and the book has no active claim, yet her claim is refused
  with the exception "Item already has a split claim in progress".
\<close>

theorem createSoloClaim_refused_after_fulfilled_split:
  "reachable ex_fulfilled \<and>
   item_owner ex_fulfilled 100 = Some 1 \<and> can_view_item ex_fulfilled 100 5 \<and>
   active_solo_claims ex_fulfilled 100 = [] \<and> active_split_claims ex_fulfilled 100 = [] \<and>
   map sc_claim_status (split_claims ex_fulfilled) = [Fulfilled] \<and>
   insert_item_claim ex_fulfilled 5
     \<lparr>ic_id = 601, ic_item_id = 100, ic_claimed_by = 5, ic_status = Active, ic_fulfilled_at = None\<rparr>
     = Inl (Raise_exception ''Item already has a split claim in progress'') \<and>
   createSoloClaim ex_fulfilled 100 5 601 = Inl Conflict"
proof -
  have "reachable ex_fulfilled"
    unfolding ex_fulfilled_def ex_confirmed_def ex_split_def
    by (intro reachable_run reachable_ex_db)
  moreover have "item_owner ex_fulfilled 100 = Some 1" by code_simp
  moreover have "can_view_item ex_fulfilled 100 5" by code_simp
  moreover have "active_solo_claims ex_fulfilled 100 = []" by code_simp
  moreover have "active_split_claims ex_fulfilled 100 = []" by code_simp
  moreover have "map sc_claim_status (split_claims ex_fulfilled) = [Fulfilled]" by code_simp
  moreover have "insert_item_claim ex_fulfilled 5
     \<lparr>ic_id = 601, ic_item_id = 100, ic_claimed_by = 5, ic_status = Active, ic_fulfilled_at = None\<rparr>
     = Inl (Raise_exception ''Item already has a split claim in progress'')" by code_simp
  moreover have "createSoloClaim ex_fulfilled 100 5 601 = Inl Conflict" by code_simp
  ultimately show ?thesis by blast
qed

subsection \<open>Joining a split: confirmation at the target\<close>

lemma joinSplit_effect:
  assumes "reachable s" and "joinSplit s sid u now = Inr s'"
  shows "\<exists>sc. sc \<in> set (split_claims s) \<and> sc_id sc = sid \<and> sc_status sc = Pending \<and>
           u \<notin> set (participants_of s sid) \<and>
           int (participant_count s sid) < sc_target_participants sc \<and>
           participants_of s' sid = participants_of s sid @ [u] \<and>
           split_claims s' =
             (if int (participant_count s sid) + 1 = sc_target_participants sc
              then map (\<lambda>r. if sc_id r = sid
                             then r\<lparr>sc_status := Confirmed, sc_confirmed_at := Some now\<rparr> else r)
                     (split_claims s)
              else split_claims s)"
proof -
  let ?NEW = "\<lparr>scp_split_claim_id = sid, scp_user_id = u\<rparr>"
  let ?s1 = "s\<lparr>split_claim_participants := split_claim_participants s @ [?NEW]\<rparr>"
  from assms(2) have ins: "insert_split_claim_participant s u ?NEW now = Inr s'"
    by (simp add: joinSplit_def)
  note eff = insert_split_claim_participant_Inr[OF ins]
  note k = consistentD[OF reachable_consistent[OF assms(1)]]
  from eff(10) obtain sc where sc: "sc \<in> set (split_claims s)" "sc_id sc = sid" "sc_status sc = Pending"
    by (auto simp: users_can_join_split_claims_def list_ex_iff)
  from eff(11) have new: "u \<notin> set (participants_of s sid)"
    by (auto simp: participants_of_def list_ex_iff)
  from k(7) sc have below: "int (participant_count s sid) < sc_target_participants sc"
    by (auto simp: pending_below_target_def list_all_iff)
  have parts: "participants_of s' sid = participants_of s sid @ [u]"
    by (simp add: participants_of_def eff(1))
  have pk1: "split_claims_pkey ?s1" using k(4) by (simp add: split_claims_pkey_def)
  have sc1: "sc \<in> set (split_claims ?s1)" using sc(1) by simp
  have "participant_count ?s1 sid = participant_count s sid + 1"
    by (simp add: participant_count_def)
  with reaches_target_by_key[OF pk1 sc1] sc(2,3) below
  have "reaches_target ?s1 sid \<longleftrightarrow> int (participant_count s sid) + 1 = sc_target_participants sc"
    by auto
  with eff(2) have "split_claims s' =
             (if int (participant_count s sid) + 1 = sc_target_participants sc
              then map (\<lambda>r. if sc_id r = sid
                             then r\<lparr>sc_status := Confirmed, sc_confirmed_at := Some now\<rparr> else r)
                     (split_claims s)
              else split_claims s)"
    by simp
  with sc new below parts show ?thesis by blast
qed

lemma initiateSplit_tables:
  assumes "consistent s" and "initiateSplit s item u target n now = Inr s'"
  shows "split_claims s' = split_claims s @
           [\<lparr>sc_id = n, sc_item_id = item, sc_initiated_by = u, sc_target_participants = target,
             sc_status = Pending, sc_claim_status = Active, sc_confirmed_at = None,
             sc_fulfilled_at = None\<rparr>]"
    and "split_claim_participants s' = split_claim_participants s @
           [\<lparr>scp_split_claim_id = n, scp_user_id = u\<rparr>]"
    and "item_claims s' = item_claims s"
    and "item_ownership_flags s' = item_ownership_flags s"
proof -
  let ?new = "\<lparr>sc_id = n, sc_item_id = item, sc_initiated_by = u, sc_target_participants = target,
               sc_status = Pending, sc_claim_status = Active, sc_confirmed_at = None,
               sc_fulfilled_at = None\<rparr>"
  let ?p = "\<lparr>scp_split_claim_id = n, scp_user_id = u\<rparr>"
  from assms(2) have t: "2 \<le> target"
    by (auto simp: initiateSplit_def split: if_splits)
  with assms(2) obtain s1 where 1: "insert_split_claim s u ?new = Inr s1"
    and 2: "insert_split_claim_participant s1 u ?p now = Inr s'"
    by (auto simp: initiateSplit_def split: if_splits sum.splits)
  note e1 = insert_split_claim_Inr[OF 1]
  note e2 = insert_split_claim_participant_Inr[OF 2]
  let ?s2 = "s1\<lparr>split_claim_participants := split_claim_participants s1 @ [?p]\<rparr>"
  have c1: "consistent s1"
    by (rule insert_split_claim_consistent[OF assms(1) 1]) (use t in simp_all)
  have "participant_count s n = 0"
    using e1(13) by (intro participant_count_fresh consistentD(6)[OF assms(1)]) simp
  then have cnt: "participant_count ?s2 n = 1"
    by (simp add: participant_count_def e1(3))
  have pk: "split_claims_pkey ?s2" using consistentD(4)[OF c1] by (simp add: split_claims_pkey_def)
  have mem: "?new \<in> set (split_claims ?s2)" by (simp add: e1(1))
  from reaches_target_by_key[OF pk mem] cnt t have "\<not> reaches_target ?s2 n" by simp
  with e2(2) have "split_claims s' = split_claims s1" by simp
  then show "split_claims s' = split_claims s @ [?new]" by (simp add: e1(1))
  show "split_claim_participants s' = split_claim_participants s @ [?p]"
    by (simp add: e2(1) e1(3))
  show "item_claims s' = item_claims s" by (simp add: e2(3) e1(2))
  show "item_ownership_flags s' = item_ownership_flags s" by (simp add: e2(4) e1(4))
qed

lemma fulfill_claims_for_item_split_claims:
  assumes "fulfill_claims_for_item s i ow now = Inr (s', rows)"
  shows "split_statuses s' = split_statuses s"
proof -
  have "map (\<lambda>sc. (sc_id sc, sc_status sc)) (map g xs) = map (\<lambda>sc. (sc_id sc, sc_status sc)) xs"
    if "\<And>r. sc_id (g r) = sc_id r" "\<And>r. sc_status (g r) = sc_status r" for g xs
    by (induction xs) (simp_all add: that)
  from this[of "\<lambda>r. if sc_id r = x then r\<lparr>sc_claim_status := Fulfilled, sc_fulfilled_at := Some now\<rparr> else r" for x]
  have m: "map (\<lambda>sc. (sc_id sc, sc_status sc))
             (map (\<lambda>r. if sc_id r = x then r\<lparr>sc_claim_status := Fulfilled, sc_fulfilled_at := Some now\<rparr> else r) xs)
           = map (\<lambda>sc. (sc_id sc, sc_status sc)) xs" for x xs
    by simp
  from assms show ?thesis
    unfolding split_statuses_def
    by (auto simp: fulfill_claims_for_item_def Let_def m simp del: map_map split: option.splits)
qed

lemma after_update_on_item_ownership_flags_split_claims:
  assumes "after_update_on_item_ownership_flags s changed = Inr s'"
  shows "set (split_claims s') \<subseteq> set (split_claims s)"
  using assms
proof (induction changed arbitrary: s)
  case Nil
  then show ?case by simp
next
  case (Cons ch changed)
  obtain OLD NEW where ch: "ch = (OLD, NEW)" by (cases ch)
  from Cons.prems obtain s1 where 1: "notify_on_flag_resolution s OLD NEW = Inr s1"
    and 2: "after_update_on_item_ownership_flags (handle_ownership_flag_confirmed s1 OLD NEW) changed = Inr s'"
    by (auto simp: ch split: sum.splits)
  have "set (split_claims (handle_ownership_flag_confirmed s1 OLD NEW)) \<subseteq> set (split_claims s1)"
    by (auto simp: handle_ownership_flag_confirmed_def delete_split_claims_tables)
  also have "split_claims s1 = split_claims s"
    by (rule only_notifies_tables(7)[OF notify_on_flag_resolution_Inr[OF 1]])
  finally show ?case using Cons.IH[OF 2] by blast
qed

lemma confirmed_only_by_join:
  assumes "consistent s" and "exec s operation = Inr s'"
    and "(sid, Confirmed) \<in> set (split_statuses s')"
  shows "(sid, Confirmed) \<in> set (split_statuses s) \<or> (\<exists>u now. operation = JoinSplit sid u now)"
proof (cases operation)
  case (CreateSoloClaim item claimer new_id)
  with assms(2) have "createSoloClaim s item claimer new_id = Inr s'" by simp
  from createSoloClaim_Inr(1)[OF this] assms(3) show ?thesis by (simp add: split_statuses_def)
next
  case (CancelSoloClaim claim caller)
  with assms(2) have "cancelSoloClaim s claim caller = Inr s'" by simp
  from cancelSoloClaim_Inr[OF this] assms(3) show ?thesis by (simp add: split_statuses_def)
next
  case (Unclaim uid claim)
  with assms(2,3) show ?thesis by (auto simp: split_statuses_def delete_item_claim_def)
next
  case (InitiateSplit item initiator target new_id now)
  with assms(2) have "initiateSplit s item initiator target new_id now = Inr s'" by simp
  from initiateSplit_tables(1)[OF assms(1) this] assms(3) show ?thesis
    by (auto simp: split_statuses_def)
next
  case (JoinSplit split user now)
  show ?thesis
  proof (cases "split = sid")
    case True
    with JoinSplit show ?thesis by simp
  next
    case False
    from JoinSplit assms(2) have "insert_split_claim_participant s user
        \<lparr>scp_split_claim_id = split, scp_user_id = user\<rparr> now = Inr s'"
      by (simp add: joinSplit_def)
    note eff = insert_split_claim_participant_Inr(2)[OF this]
    from assms(3) obtain r' where r': "r' \<in> set (split_claims s')" "sc_id r' = sid" "sc_status r' = Confirmed"
      by (auto simp: split_statuses_def)
    let ?g = "\<lambda>r. if sc_id r = split then r\<lparr>sc_status := Confirmed, sc_confirmed_at := Some now\<rparr> else r"
    from eff r'(1) have "r' \<in> set (split_claims s) \<or> (\<exists>r\<in>set (split_claims s). r' = ?g r)"
      by (auto split: if_splits)
    then have "r' \<in> set (split_claims s)"
    proof
      assume "\<exists>r\<in>set (split_claims s). r' = ?g r"
      then obtain r where r: "r \<in> set (split_claims s)" "r' = ?g r" by blast
      with r'(2) False have "sc_id r \<noteq> split" by (cases "sc_id r = split") auto
      with r show ?thesis by simp
    qed
    with r'(2,3) have "(sid, Confirmed) \<in> set (split_statuses s)"
      by (force simp: split_statuses_def)
    then show ?thesis ..
  qed
next
  case (LeaveSplit split user)
  with assms(2,3) show ?thesis
    by (auto simp: leaveSplit_def delete_split_claim_def split_statuses_def
        delete_split_claims_tables delete_split_claim_participant_tables
        split: option.splits if_splits)
next
  case (FulfillClaimsForItem item owner now)
  with assms(2) obtain rows where "fulfill_claims_for_item s item owner now = Inr (s', rows)"
    by (auto split: sum.splits prod.splits)
  from fulfill_claims_for_item_split_claims[OF this] assms(3) show ?thesis by simp
next
  case (CreateFlag item flagger new_id)
  with assms(2) have "insert_item_ownership_flag s flagger
      \<lparr>fl_id = new_id, fl_item_id = item, fl_flagged_by = flagger,
       fl_status = Flag_pending, fl_resolved_at = None\<rparr> = Inr s'"
    by (simp add: createFlag_def)
  from insert_item_ownership_flag_Inr(3)[OF this] assms(3) show ?thesis
    by (simp add: split_statuses_def)
next
  case (ResolveFlag flag owner decision now)
  with assms(2) have "resolveFlag s flag owner decision now = Inr s'" by simp
  from after_update_on_item_ownership_flags_split_claims[OF this[unfolded resolveFlag_def Let_def]]
  have "set (split_claims s') \<subseteq> set (split_claims s)" by simp
  with assms(3) show ?thesis by (auto simp: split_statuses_def)
next
  case (DeleteFlag flag uid)
  with assms(2,3) show ?thesis by (auto simp: split_statuses_def deleteFlag_def Let_def)
qed

text \<open>
  Claim C2. In a reachable state, a join that succeeds finds the split claim pending with
  fewer participants than its target \<open>N\<close>, adds the joiner (who was not a participant),
  and in the same step sets the claim to confirmed with \<open>confirmed_at = NOW()\<close> exactly
  when the joiner is the \<open>N\<close>th participant; otherwise the split claims are unchanged.
  No other operation takes a split claim from pending to confirmed, so it is never
  confirmed before the \<open>N\<close>th join and needs no confirm action.
\<close>

theorem auto_confirm:
  assumes "reachable s"
  shows "(\<forall>s'. joinSplit s sid u now = Inr s' \<longrightarrow>
           (\<exists>sc. sc \<in> set (split_claims s) \<and> sc_id sc = sid \<and> sc_status sc = Pending \<and>
              u \<notin> set (participants_of s sid) \<and>
              int (participant_count s sid) < sc_target_participants sc \<and>
              participants_of s' sid = participants_of s sid @ [u] \<and>
              split_claims s' =
                (if int (participant_count s sid) + 1 = sc_target_participants sc
                 then map (\<lambda>r. if sc_id r = sid
                                then r\<lparr>sc_status := Confirmed, sc_confirmed_at := Some now\<rparr> else r)
                        (split_claims s)
                 else split_claims s))) \<and>
         (\<forall>operation s'. exec s operation = Inr s' \<longrightarrow>
            (sid, Pending) \<in> set (split_statuses s) \<longrightarrow>
            (sid, Confirmed) \<in> set (split_statuses s') \<longrightarrow>
            (\<exists>joiner time. operation = JoinSplit sid joiner time))"
proof (intro conjI allI impI)
  fix s'
  assume "joinSplit s sid u now = Inr s'"
  with assms show "\<exists>sc. sc \<in> set (split_claims s) \<and> sc_id sc = sid \<and> sc_status sc = Pending \<and>
              u \<notin> set (participants_of s sid) \<and>
              int (participant_count s sid) < sc_target_participants sc \<and>
              participants_of s' sid = participants_of s sid @ [u] \<and>
              split_claims s' =
                (if int (participant_count s sid) + 1 = sc_target_participants sc
                 then map (\<lambda>r. if sc_id r = sid
                                then r\<lparr>sc_status := Confirmed, sc_confirmed_at := Some now\<rparr> else r)
                        (split_claims s)
                 else split_claims s)"
    by (rule joinSplit_effect)
next
  fix operation s'
  assume ex: "exec s operation = Inr s'"
    and p: "(sid, Pending) \<in> set (split_statuses s)"
    and c: "(sid, Confirmed) \<in> set (split_statuses s')"
  from assms have cons: "consistent s" by (rule reachable_consistent)
  have "(sid, Confirmed) \<notin> set (split_statuses s)"
  proof
    assume "(sid, Confirmed) \<in> set (split_statuses s)"
    with p obtain a b where "a \<in> set (split_claims s)" "b \<in> set (split_claims s)"
      "sc_id a = sid" "sc_id b = sid" "sc_status a = Pending" "sc_status b = Confirmed"
      by (auto simp: split_statuses_def)
    moreover from consistentD(4)[OF cons] have "inj_on sc_id (set (split_claims s))"
      by (simp add: split_claims_pkey_def distinct_map)
    ultimately have "a = b" by (auto dest: inj_onD)
    with \<open>sc_status a = Pending\<close> \<open>sc_status b = Confirmed\<close> show False by simp
  qed
  with confirmed_only_by_join[OF cons ex c]
  show "\<exists>joiner time. operation = JoinSplit sid joiner time" by simp
qed

text \<open>
  With a target of two Cy's join confirms Bob's split at the time of the join; with a
  target of three the same join leaves it pending.
\<close>

theorem auto_confirm_witness:
  "reachable ex_split \<and> reachable ex_split3 \<and>
   map sc_target_participants (split_claims ex_split) = [2] \<and>
   map sc_target_participants (split_claims ex_split3) = [3] \<and>
   split_statuses ex_split = [(500, Pending)] \<and>
   split_statuses ex_split3 = [(500, Pending)] \<and>
   participants_of ex_split 500 = [2] \<and> participants_of ex_split3 500 = [2] \<and>
   (\<exists>s'. joinSplit ex_split 500 3 8 = Inr s' \<and>
         participants_of s' 500 = [2, 3] \<and>
         split_statuses s' = [(500, Confirmed)] \<and>
         map sc_confirmed_at (split_claims s') = [Some 8]) \<and>
   (\<exists>s'. joinSplit ex_split3 500 3 8 = Inr s' \<and>
         participants_of s' 500 = [2, 3] \<and>
         split_statuses s' = [(500, Pending)])"
proof -
  let ?sc = "\<lambda>n. \<lparr>sc_id = 500, sc_item_id = 100, sc_initiated_by = 2, sc_target_participants = n,
        sc_status = Pending, sc_claim_status = Active, sc_confirmed_at = None,
        sc_fulfilled_at = None\<rparr>"
  let ?confirm = "\<lambda>r. if sc_id r = 500
                      then r\<lparr>sc_status := Confirmed, sc_confirmed_at := Some 8\<rparr> else r"
  have r: "reachable ex_split"
    unfolding ex_split_def by (rule reachable_run[OF reachable_ex_db])
  have r3: "reachable ex_split3"
    unfolding ex_split3_def by (rule reachable_run[OF reachable_ex_db])
  have j: "joinSplit ex_split 500 3 8 = Inr ex_confirmed" by code_simp
  have j3: "joinSplit ex_split3 500 3 8 = Inr ex_joined3" by code_simp
  have p: "participants_of ex_split 500 = [2]" "participants_of ex_split3 500 = [2]"
    by code_simp+
  have c: "int (participant_count ex_split 500) + 1 = 2"
    "int (participant_count ex_split3 500) + 1 \<noteq> 3"
    by code_simp+
  have t: "split_claims ex_split = [?sc 2]" "split_claims ex_split3 = [?sc 3]"
    by code_simp+
  from auto_confirm[OF r, of 500 3 8, THEN conjunct1, rule_format, OF j]
  obtain sc where sc: "sc \<in> set (split_claims ex_split)"
    and parts: "participants_of ex_confirmed 500 = participants_of ex_split 500 @ [3]"
    and tab: "split_claims ex_confirmed =
             (if int (participant_count ex_split 500) + 1 = sc_target_participants sc
              then map ?confirm (split_claims ex_split) else split_claims ex_split)"
    by blast
  from sc have "sc = ?sc 2" by (simp add: t)
  then have "sc_target_participants sc = 2" by simp
  with tab c have "split_claims ex_confirmed = map ?confirm (split_claims ex_split)"
    by simp
  with parts have 1: "\<exists>s'. joinSplit ex_split 500 3 8 = Inr s' \<and>
         participants_of s' 500 = [2, 3] \<and>
         split_statuses s' = [(500, Confirmed)] \<and>
         map sc_confirmed_at (split_claims s') = [Some 8]"
    by (intro exI[of _ ex_confirmed]) (simp add: j p t split_statuses_def)
  from auto_confirm[OF r3, of 500 3 8, THEN conjunct1, rule_format, OF j3]
  obtain sc3 where sc3: "sc3 \<in> set (split_claims ex_split3)"
    and parts3: "participants_of ex_joined3 500 = participants_of ex_split3 500 @ [3]"
    and tab3: "split_claims ex_joined3 =
             (if int (participant_count ex_split3 500) + 1 = sc_target_participants sc3
              then map ?confirm (split_claims ex_split3) else split_claims ex_split3)"
    by blast
  from sc3 have "sc3 = ?sc 3" by (simp add: t)
  then have "sc_target_participants sc3 = 3" by simp
  with tab3 c have "split_claims ex_joined3 = split_claims ex_split3"
    by simp
  with parts3 have 2: "\<exists>s'. joinSplit ex_split3 500 3 8 = Inr s' \<and>
         participants_of s' 500 = [2, 3] \<and>
         split_statuses s' = [(500, Pending)]"
    by (intro exI[of _ ex_joined3]) (simp add: j3 p t split_statuses_def)
  have 3: "map sc_target_participants (split_claims ex_split) = [2]"
    "map sc_target_participants (split_claims ex_split3) = [3]"
    "split_statuses ex_split = [(500, Pending)]" "split_statuses ex_split3 = [(500, Pending)]"
    by (simp_all add: t split_statuses_def)
  from r r3 3 p 1 2 show ?thesis by (intro conjI)
qed

subsection \<open>Fulfilment\<close>

lemma distinct_participants_of:
  assumes "split_claim_participants_pkey s"
  shows "distinct (participants_of s sid)"
proof -
  have "distinct (map scp_user_id (filter (\<lambda>p. scp_split_claim_id p = sid) ps))"
    if "distinct (map (\<lambda>p. (scp_split_claim_id p, scp_user_id p)) ps)" for ps
    using that
  proof (induction ps)
    case Nil
    then show ?case by simp
  next
    case (Cons p ps)
    then show ?case by (auto simp: image_iff)
  qed
  with assms show ?thesis
    by (simp add: split_claim_participants_pkey_def participants_of_def)
qed

lemma gift_received_notification_sel [simp]:
  "n_user_id (gift_received_notification a b c d e) = e"
  "n_type (gift_received_notification a b c d e) = Gift_received"
  by (simp_all add: gift_received_notification_def)

lemma map_user_gift_received [simp]:
  "map (n_user_id \<circ> gift_received_notification a b c d) ids = ids"
  by (induction ids) simp_all

lemma fulfill_solo:
  assumes "active_solo_claims s item = [c]"
  shows "fulfill_claims_for_item s item (Some owner) now =
           Inr (s\<lparr>item_claims :=
                    map (\<lambda>x. if ic_id x = ic_id c
                              then x\<lparr>ic_status := Fulfilled, ic_fulfilled_at := Some now\<rparr> else x)
                      (item_claims s),
                  notifications := notifications s @
                    [gift_received_notification (display_name s owner)
                       (select_into (filter (\<lambda>wi. wi_id wi = item) (wishlist_items s)))
                       item (Some owner) (ic_claimed_by c)]\<rparr>,
                [\<lparr>claim_type = ''solo'', claim_id = ic_id c, claimer_ids = Some [ic_claimed_by c]\<rparr>])"
proof -
  from assms have "select_into (filter (\<lambda>c. ic_item_id c = item \<and> ic_status c = Active) (item_claims s)) = Some c"
    by (simp add: active_solo_claims_def select_into_def)
  then show ?thesis
    by (simp add: fulfill_claims_for_item_def Let_def)
qed

lemma fulfill_split:
  assumes "active_solo_claims s item = []" and "active_split_claims s item = [sc]"
  shows "fulfill_claims_for_item s item (Some owner) now =
           Inr (s\<lparr>split_claims :=
                    map (\<lambda>r. if sc_id r = sc_id sc
                              then r\<lparr>sc_claim_status := Fulfilled, sc_fulfilled_at := Some now\<rparr> else r)
                      (split_claims s),
                  notifications := notifications s @
                    map (gift_received_notification (display_name s owner)
                           (select_into (filter (\<lambda>wi. wi_id wi = item) (wishlist_items s)))
                           item (Some owner))
                      (participants_of s (sc_id sc))\<rparr>,
                [\<lparr>claim_type = ''split'', claim_id = sc_id sc,
                  claimer_ids = array_agg (participants_of s (sc_id sc))\<rparr>])"
proof -
  from assms(1) have 1: "select_into (filter (\<lambda>c. ic_item_id c = item \<and> ic_status c = Active) (item_claims s)) = None"
    by (simp add: active_solo_claims_def select_into_def)
  from assms(2) have 2: "select_into (filter (\<lambda>sc. sc_item_id sc = item \<and> sc_claim_status sc = Active) (split_claims s)) = Some sc"
    by (simp add: active_split_claims_def select_into_def)
  show ?thesis
  proof (cases "participants_of s (sc_id sc) = []")
    case True
    then have "array_agg (map scp_user_id (filter (\<lambda>p. scp_split_claim_id p = sc_id sc)
                 (split_claim_participants s))) = None"
      by (simp add: array_agg_def participants_of_def)
    with True show ?thesis
      by (simp add: fulfill_claims_for_item_def Let_def 1 2 array_agg_def)
  next
    case False
    then have "array_agg (map scp_user_id (filter (\<lambda>p. scp_split_claim_id p = sc_id sc)
                 (split_claim_participants s))) = Some (participants_of s (sc_id sc))"
      by (simp add: array_agg_def participants_of_def)
    then show ?thesis
      by (simp add: fulfill_claims_for_item_def Let_def 1 2) (simp add: array_agg_def participants_of_def)
  qed
qed

lemma fulfill_nothing:
  assumes "active_solo_claims s item = []" and "active_split_claims s item = []"
  shows "fulfill_claims_for_item s item (Some owner) now = Inr (s, [])"
  using assms
  by (simp add: fulfill_claims_for_item_def Let_def active_solo_claims_def active_split_claims_def
      select_into_def)

text \<open>
  Claim C3. In a reachable state an item has one active solo claim, or one active split
  claim (pending or confirmed), or none. \<open>fulfill_claims_for_item\<close>, called with the
  owner's id, sets the solo claim to fulfilled at \<open>NOW()\<close>, returns its claimer and
  notifies the claimer alone; or sets the split claim to fulfilled at \<open>NOW()\<close>, returns
  its participants and sends one notification to each of them, who are pairwise
  different, and to nobody else; or changes nothing and returns no row. Every notification
  is of type \<open>gift_received\<close>.
\<close>

theorem fulfill_claims_for_item_correct:
  assumes "reachable s"
  shows "(\<forall>c. active_solo_claims s item = [c] \<longrightarrow>
            (\<exists>s' ns. fulfill_claims_for_item s item (Some owner) now =
                        Inr (s', [\<lparr>claim_type = ''solo'', claim_id = ic_id c,
                                  claimer_ids = Some [ic_claimed_by c]\<rparr>]) \<and>
                      item_claims s' =
                        map (\<lambda>x. if ic_id x = ic_id c
                                  then x\<lparr>ic_status := Fulfilled, ic_fulfilled_at := Some now\<rparr> else x)
                          (item_claims s) \<and>
                      split_claims s' = split_claims s \<and>
                      notifications s' = notifications s @ ns \<and>
                      map n_user_id ns = [ic_claimed_by c] \<and>
                      (\<forall>n\<in>set ns. n_type n = Gift_received))) \<and>
         (\<forall>sc. active_solo_claims s item = [] \<and> active_split_claims s item = [sc] \<longrightarrow>
            (\<exists>s' ns. fulfill_claims_for_item s item (Some owner) now =
                        Inr (s', [\<lparr>claim_type = ''split'', claim_id = sc_id sc,
                                  claimer_ids = array_agg (participants_of s (sc_id sc))\<rparr>]) \<and>
                      split_claims s' =
                        map (\<lambda>r. if sc_id r = sc_id sc
                                  then r\<lparr>sc_claim_status := Fulfilled, sc_fulfilled_at := Some now\<rparr>
                                  else r)
                          (split_claims s) \<and>
                      item_claims s' = item_claims s \<and>
                      notifications s' = notifications s @ ns \<and>
                      map n_user_id ns = participants_of s (sc_id sc) \<and>
                      distinct (participants_of s (sc_id sc)) \<and>
                      (\<forall>n\<in>set ns. n_type n = Gift_received))) \<and>
         (active_solo_claims s item = [] \<and> active_split_claims s item = [] \<longrightarrow>
            fulfill_claims_for_item s item (Some owner) now = Inr (s, []))"
proof (intro conjI allI impI)
  fix c
  assume "active_solo_claims s item = [c]"
  note f = fulfill_solo[OF this, of owner now]
  show "\<exists>s' ns. fulfill_claims_for_item s item (Some owner) now =
                        Inr (s', [\<lparr>claim_type = ''solo'', claim_id = ic_id c,
                                  claimer_ids = Some [ic_claimed_by c]\<rparr>]) \<and>
                      item_claims s' =
                        map (\<lambda>x. if ic_id x = ic_id c
                                  then x\<lparr>ic_status := Fulfilled, ic_fulfilled_at := Some now\<rparr> else x)
                          (item_claims s) \<and>
                      split_claims s' = split_claims s \<and>
                      notifications s' = notifications s @ ns \<and>
                      map n_user_id ns = [ic_claimed_by c] \<and>
                      (\<forall>n\<in>set ns. n_type n = Gift_received)"
    by (rule exI[of _ "s\<lparr>item_claims :=
                    map (\<lambda>x. if ic_id x = ic_id c
                              then x\<lparr>ic_status := Fulfilled, ic_fulfilled_at := Some now\<rparr> else x)
                      (item_claims s),
                  notifications := notifications s @
                    [gift_received_notification (display_name s owner)
                       (select_into (filter (\<lambda>wi. wi_id wi = item) (wishlist_items s)))
                       item (Some owner) (ic_claimed_by c)]\<rparr>"],
        rule exI[of _ "[gift_received_notification (display_name s owner)
                       (select_into (filter (\<lambda>wi. wi_id wi = item) (wishlist_items s)))
                       item (Some owner) (ic_claimed_by c)]"])
      (simp add: f)
next
  fix sc
  assume a: "active_solo_claims s item = [] \<and> active_split_claims s item = [sc]"
  then have f: "fulfill_claims_for_item s item (Some owner) now =
           Inr (s\<lparr>split_claims :=
                    map (\<lambda>r. if sc_id r = sc_id sc
                              then r\<lparr>sc_claim_status := Fulfilled, sc_fulfilled_at := Some now\<rparr> else r)
                      (split_claims s),
                  notifications := notifications s @
                    map (gift_received_notification (display_name s owner)
                           (select_into (filter (\<lambda>wi. wi_id wi = item) (wishlist_items s)))
                           item (Some owner))
                      (participants_of s (sc_id sc))\<rparr>,
                [\<lparr>claim_type = ''split'', claim_id = sc_id sc,
                  claimer_ids = array_agg (participants_of s (sc_id sc))\<rparr>])"
    by (intro fulfill_split) simp_all
  have d: "distinct (participants_of s (sc_id sc))"
    by (rule distinct_participants_of[OF consistentD(5)[OF reachable_consistent[OF assms]]])
  show "\<exists>s' ns. fulfill_claims_for_item s item (Some owner) now =
                        Inr (s', [\<lparr>claim_type = ''split'', claim_id = sc_id sc,
                                  claimer_ids = array_agg (participants_of s (sc_id sc))\<rparr>]) \<and>
                      split_claims s' =
                        map (\<lambda>r. if sc_id r = sc_id sc
                                  then r\<lparr>sc_claim_status := Fulfilled, sc_fulfilled_at := Some now\<rparr>
                                  else r)
                          (split_claims s) \<and>
                      item_claims s' = item_claims s \<and>
                      notifications s' = notifications s @ ns \<and>
                      map n_user_id ns = participants_of s (sc_id sc) \<and>
                      distinct (participants_of s (sc_id sc)) \<and>
                      (\<forall>n\<in>set ns. n_type n = Gift_received)"
    by (rule exI[of _ "s\<lparr>split_claims :=
                    map (\<lambda>r. if sc_id r = sc_id sc
                              then r\<lparr>sc_claim_status := Fulfilled, sc_fulfilled_at := Some now\<rparr> else r)
                      (split_claims s),
                  notifications := notifications s @
                    map (gift_received_notification (display_name s owner)
                           (select_into (filter (\<lambda>wi. wi_id wi = item) (wishlist_items s)))
                           item (Some owner))
                      (participants_of s (sc_id sc))\<rparr>"],
        rule exI[of _ "map (gift_received_notification (display_name s owner)
                           (select_into (filter (\<lambda>wi. wi_id wi = item) (wishlist_items s)))
                           item (Some owner))
                      (participants_of s (sc_id sc))"])
      (simp add: f d)
next
  assume "active_solo_claims s item = [] \<and> active_split_claims s item = []"
  then show "fulfill_claims_for_item s item (Some owner) now = Inr (s, [])"
    by (intro fulfill_nothing) simp_all
qed

text \<open>
  Ann marks the book as received: after the confirmed split Bob and Cy are notified and
  nobody else (not Ann, Dan or Eve); after Bob's solo claim Bob is; with no claim nothing
  happens.
\<close>

theorem fulfill_claims_for_item_correct_witness:
  "reachable ex_confirmed \<and> reachable ex_claimed \<and> reachable ex_db \<and>
   active_solo_claims ex_confirmed 100 = [] \<and>
   map sc_id (active_split_claims ex_confirmed 100) = [500] \<and>
   map sc_status (active_split_claims ex_confirmed 100) = [Confirmed] \<and>
   (\<exists>s' ns. fulfill_claims_for_item ex_confirmed 100 (Some 1) 9 =
               Inr (s', [\<lparr>claim_type = ''split'', claim_id = 500, claimer_ids = Some [2, 3]\<rparr>]) \<and>
             map sc_claim_status (split_claims s') = [Fulfilled] \<and>
             map sc_fulfilled_at (split_claims s') = [Some 9] \<and>
             notifications s' = notifications ex_confirmed @ ns \<and>
             map n_user_id ns = [2, 3] \<and> (\<forall>n\<in>set ns. n_type n = Gift_received)) \<and>
   (\<exists>s' ns. fulfill_claims_for_item ex_claimed 100 (Some 1) 9 =
               Inr (s', [\<lparr>claim_type = ''solo'', claim_id = 600, claimer_ids = Some [2]\<rparr>]) \<and>
             map ic_status (item_claims s') = [Fulfilled] \<and>
             map ic_fulfilled_at (item_claims s') = [Some 9] \<and>
             notifications s' = notifications ex_claimed @ ns \<and>
             map n_user_id ns = [2] \<and> (\<forall>n\<in>set ns. n_type n = Gift_received)) \<and>
   fulfill_claims_for_item ex_db 100 (Some 1) 9 = Inr (ex_db, [])"
proof -
  let ?sc = "\<lparr>sc_id = 500, sc_item_id = 100, sc_initiated_by = 2, sc_target_participants = 2,
              sc_status = Confirmed, sc_claim_status = Active, sc_confirmed_at = Some 8,
              sc_fulfilled_at = None\<rparr>"
  let ?c = "\<lparr>ic_id = 600, ic_item_id = 100, ic_claimed_by = 2, ic_status = Active, ic_fulfilled_at = None\<rparr>"
  have r0: "reachable ex_db" by (rule reachable_ex_db)
  have r1: "reachable ex_claimed" unfolding ex_claimed_def by (rule reachable_run[OF r0])
  have r2: "reachable ex_confirmed"
    unfolding ex_confirmed_def ex_split_def by (intro reachable_run r0)
  have t2: "split_claims ex_confirmed = [?sc]" "item_claims ex_confirmed = []"
    "participants_of ex_confirmed 500 = [2, 3]"
    by code_simp+
  have t1: "item_claims ex_claimed = [?c]" "split_claims ex_claimed = []" by code_simp+
  have t0: "item_claims ex_db = []" "split_claims ex_db = []" by (simp_all add: ex_db_def)
  have a2: "active_solo_claims ex_confirmed 100 = [] \<and> active_split_claims ex_confirmed 100 = [?sc]"
    by (simp add: active_solo_claims_def active_split_claims_def t2)
  have a1: "active_solo_claims ex_claimed 100 = [?c]"
    by (simp add: active_solo_claims_def t1)
  have a0: "active_solo_claims ex_db 100 = [] \<and> active_split_claims ex_db 100 = []"
    by (simp add: active_solo_claims_def active_split_claims_def t0)
  note w = fulfill_claims_for_item_correct[where item = 100 and owner = 1 and now = 9]
  from w[OF r2, THEN conjunct2, THEN conjunct1, rule_format, OF a2]
  obtain s' ns where "fulfill_claims_for_item ex_confirmed 100 (Some 1) 9 =
       Inr (s', [\<lparr>claim_type = ''split'', claim_id = 500, claimer_ids = Some [2, 3]\<rparr>])"
    "split_claims s' = [?sc\<lparr>sc_claim_status := Fulfilled, sc_fulfilled_at := Some 9\<rparr>]"
    "notifications s' = notifications ex_confirmed @ ns"
    "map n_user_id ns = [2, 3]" "\<forall>n\<in>set ns. n_type n = Gift_received"
    by (auto simp: t2 array_agg_def)
  then have 2: "\<exists>s' ns. fulfill_claims_for_item ex_confirmed 100 (Some 1) 9 =
               Inr (s', [\<lparr>claim_type = ''split'', claim_id = 500, claimer_ids = Some [2, 3]\<rparr>]) \<and>
             map sc_claim_status (split_claims s') = [Fulfilled] \<and>
             map sc_fulfilled_at (split_claims s') = [Some 9] \<and>
             notifications s' = notifications ex_confirmed @ ns \<and>
             map n_user_id ns = [2, 3] \<and> (\<forall>n\<in>set ns. n_type n = Gift_received)"
    by (intro exI[of _ s'] exI[of _ ns]) simp
  from w[OF r1, THEN conjunct1, rule_format, OF a1]
  obtain s' ns where "fulfill_claims_for_item ex_claimed 100 (Some 1) 9 =
       Inr (s', [\<lparr>claim_type = ''solo'', claim_id = 600, claimer_ids = Some [2]\<rparr>])"
    "item_claims s' = [?c\<lparr>ic_status := Fulfilled, ic_fulfilled_at := Some 9\<rparr>]"
    "notifications s' = notifications ex_claimed @ ns"
    "map n_user_id ns = [2]" "\<forall>n\<in>set ns. n_type n = Gift_received"
    by (auto simp: t1)
  then have 1: "\<exists>s' ns. fulfill_claims_for_item ex_claimed 100 (Some 1) 9 =
               Inr (s', [\<lparr>claim_type = ''solo'', claim_id = 600, claimer_ids = Some [2]\<rparr>]) \<and>
             map ic_status (item_claims s') = [Fulfilled] \<and>
             map ic_fulfilled_at (item_claims s') = [Some 9] \<and>
             notifications s' = notifications ex_claimed @ ns \<and>
             map n_user_id ns = [2] \<and> (\<forall>n\<in>set ns. n_type n = Gift_received)"
    by (intro exI[of _ s'] exI[of _ ns]) simp
  from w[OF r0, THEN conjunct2, THEN conjunct2, rule_format, OF a0]
  have 0: "fulfill_claims_for_item ex_db 100 (Some 1) 9 = Inr (ex_db, [])" .
  from a2 have 3: "active_solo_claims ex_confirmed 100 = []"
    "map sc_id (active_split_claims ex_confirmed 100) = [500]"
    "map sc_status (active_split_claims ex_confirmed 100) = [Confirmed]"
    by simp_all
  from r0 r1 r2 3 2 1 0 show ?thesis by (intro conjI)
qed

subsection \<open>Resolving an ownership flag\<close>

lemma select_into_nonempty:
  assumes "x \<in> set xs"
  shows "\<exists>y. select_into xs = Some y"
  using assms by (cases xs) (simp_all add: select_into_def)

lemma item_owner_rows:
  assumes "item_owner s item = Some owner"
  shows "\<exists>wi\<in>set (wishlist_items s). wi_id wi = item \<and>
           (\<exists>w\<in>set (wishlists s). w_id w = wi_wishlist_id wi \<and> w_user_id w = owner)"
proof -
  from assms obtain info where info: "select_into (get_split_claim_item_info s item) = Some info"
    and o: "wishlist_owner_id info = owner"
    by (auto simp: item_owner_def)
  from info have "info \<in> set (get_split_claim_item_info s item)"
    by (auto simp: select_into_def split: list.splits)
  then obtain wi w where "wi \<in> set (wishlist_items s)" "wi_id wi = item"
    "w \<in> set (wishlists s)" "w_id w = wi_wishlist_id wi"
    "info = \<lparr>item_title = wi_title wi, info_wishlist_id = w_id w, wishlist_name = w_name w,
             wishlist_owner_id = w_user_id w\<rparr>"
    by (auto simp: get_split_claim_item_info_def)
  with o show ?thesis by auto
qed

lemma notify_on_flag_resolution_succeeds:
  assumes "item_owner s (fl_item_id NEW) = Some owner" and "owner \<in> fst ` set (profiles s)"
  shows "\<exists>s'. notify_on_flag_resolution s OLD NEW = Inr s'"
proof (cases "(fl_status NEW = Flag_confirmed \<or> fl_status NEW = Flag_denied) \<and> fl_status OLD = Flag_pending")
  case False
  then show ?thesis by (auto simp: notify_on_flag_resolution_def)
next
  case True
  let ?rows = "concat (map (\<lambda>wi. concat (map (\<lambda>w. map (\<lambda>p. (snd p, wi_title wi, w_user_id w, w_id w))
                                                       (filter (\<lambda>p. fst p = w_user_id w) (profiles s)))
                                              (filter (\<lambda>w. w_id w = wi_wishlist_id wi) (wishlists s))))
                           (filter (\<lambda>wi. wi_id wi = fl_item_id NEW) (wishlist_items s)))"
  from item_owner_rows[OF assms(1)] obtain wi w where wi: "wi \<in> set (wishlist_items s)" "wi_id wi = fl_item_id NEW"
    and w: "w \<in> set (wishlists s)" "w_id w = wi_wishlist_id wi" "w_user_id w = owner"
    by blast
  from assms(2) obtain p where p: "p \<in> set (profiles s)" "fst p = owner" by auto
  from wi w p have "(snd p, wi_title wi, w_user_id w, w_id w) \<in> set ?rows"
    by auto
  then obtain y where "select_into ?rows = Some y" by (blast dest: select_into_nonempty)
  with True show ?thesis
    by (cases y) (simp add: notify_on_flag_resolution_def)
qed

lemma visible_flag_only:
  assumes "item_ownership_flags_pkey s" and "f \<in> set (item_ownership_flags s)" and "P f"
  shows "filter (\<lambda>x. fl_id x = fl_id f \<and> P x) (item_ownership_flags s) = [f]"
proof -
  have "filter (\<lambda>x. fl_id x = fl_id f \<and> P x) (item_ownership_flags s) =
          filter P (filter (\<lambda>x. fl_id x = fl_id f) (item_ownership_flags s))"
    by (simp add: conj_commute)
  also have "filter (\<lambda>x. fl_id x = fl_id f) (item_ownership_flags s) = [f]"
    using assms(1,2) unfolding item_ownership_flags_pkey_def by (rule filter_by_key)
  finally show ?thesis using assms(3) by simp
qed

lemma resolveFlag_pending:
  assumes "reachable s" and "f \<in> set (item_ownership_flags s)" and "fl_status f = Flag_pending"
    and "item_owner s (fl_item_id f) = Some owner" and "owner \<in> fst ` set (profiles s)"
  shows "\<exists>s1. only_notifies
                (s\<lparr>item_ownership_flags :=
                     map (\<lambda>x. if fl_id x = fl_id f \<and> owners_can_update_flags_on_their_items s owner x
                               then x\<lparr>fl_status := decided_status decision, fl_resolved_at := Some now\<rparr>
                               else x) (item_ownership_flags s)\<rparr>) s1 \<and>
              resolveFlag s (fl_id f) owner decision now =
                Inr (handle_ownership_flag_confirmed s1 f
                       (f\<lparr>fl_status := decided_status decision, fl_resolved_at := Some now\<rparr>))"
proof -
  let ?vis = "\<lambda>x. fl_id x = fl_id f \<and> owners_can_update_flags_on_their_items s owner x"
  let ?set = "\<lambda>x. x\<lparr>fl_status := decided_status decision, fl_resolved_at := Some now\<rparr>"
  let ?s0 = "s\<lparr>item_ownership_flags := map (\<lambda>x. if ?vis x then ?set x else x) (item_ownership_flags s)\<rparr>"
  from item_owner_rows[OF assms(4)] have own: "owners_can_update_flags_on_their_items s owner f"
    unfolding owners_can_update_flags_on_their_items_def list_ex_iff by blast
  have pk: "item_ownership_flags_pkey s"
    by (rule consistentD(8)[OF reachable_consistent[OF assms(1)]])
  have one: "filter ?vis (item_ownership_flags s) = [f]"
    using pk assms(2) own
    by (rule visible_flag_only[where P = "owners_can_update_flags_on_their_items s owner"])
  have "same_surroundings s ?s0" by (simp add: same_surroundings_def)
  then have "item_owner ?s0 (fl_item_id (?set f)) = Some owner"
    using assms(4) by (simp add: same_surroundings_visibility)
  moreover have "owner \<in> fst ` set (profiles ?s0)" using assms(5) by simp
  ultimately obtain s1 where n: "notify_on_flag_resolution ?s0 f (?set f) = Inr s1"
    using notify_on_flag_resolution_succeeds by blast
  have "resolveFlag s (fl_id f) owner decision now =
          Inr (handle_ownership_flag_confirmed s1 f (?set f))"
    by (simp add: resolveFlag_def Let_def one n)
  with notify_on_flag_resolution_Inr[OF n] show ?thesis by blast
qed

text \<open>
  Claim C4. In a reachable state, let \<open>f\<close> be a pending flag and let the owner of its
  item (who has a profile) resolve it. With the decision confirmed, one and the same step
  sets the flag to confirmed and deletes every solo and split claim of the item, so that
  no active claim of the item is left. With the decision denied the flag is set to
  denied and the claims, split claims and participants are as before.
\<close>

theorem resolve_flag_cancels_claims:
  assumes "reachable s" and "f \<in> set (item_ownership_flags s)" and "fl_status f = Flag_pending"
    and "item_owner s (fl_item_id f) = Some owner" and "owner \<in> fst ` set (profiles s)"
  shows "(\<exists>s'. resolveFlag s (fl_id f) owner Decide_confirmed now = Inr s' \<and>
            f\<lparr>fl_status := Flag_confirmed, fl_resolved_at := Some now\<rparr> \<in> set (item_ownership_flags s') \<and>
            item_claims s' = filter (\<lambda>c. ic_item_id c \<noteq> fl_item_id f) (item_claims s) \<and>
            split_claims s' = filter (\<lambda>sc. sc_item_id sc \<noteq> fl_item_id f) (split_claims s) \<and>
            active_solo_claims s' (fl_item_id f) = [] \<and>
            active_split_claims s' (fl_item_id f) = []) \<and>
         (\<exists>s'. resolveFlag s (fl_id f) owner Decide_denied now = Inr s' \<and>
            f\<lparr>fl_status := Flag_denied, fl_resolved_at := Some now\<rparr> \<in> set (item_ownership_flags s') \<and>
            item_claims s' = item_claims s \<and> split_claims s' = split_claims s \<and>
            split_claim_participants s' = split_claim_participants s)"
proof
  let ?vis = "\<lambda>x. fl_id x = fl_id f \<and> owners_can_update_flags_on_their_items s owner x"
  from item_owner_rows[OF assms(4)] have own: "owners_can_update_flags_on_their_items s owner f"
    unfolding owners_can_update_flags_on_their_items_def list_ex_iff by blast
  have upd: "f\<lparr>fl_status := st, fl_resolved_at := Some now\<rparr> \<in>
               set (map (\<lambda>x. if ?vis x then x\<lparr>fl_status := st, fl_resolved_at := Some now\<rparr> else x)
                      (item_ownership_flags s))" for st
  proof -
    have "(\<lambda>x. if ?vis x then x\<lparr>fl_status := st, fl_resolved_at := Some now\<rparr> else x) f
            \<in> set (map (\<lambda>x. if ?vis x then x\<lparr>fl_status := st, fl_resolved_at := Some now\<rparr> else x)
                      (item_ownership_flags s))"
      unfolding set_map using assms(2) by (rule imageI)
    with own show ?thesis by simp
  qed
  {
    from resolveFlag_pending[OF assms, where decision = Decide_confirmed and now = now, unfolded decided_status.simps]
    have "\<exists>s1. only_notifies
                (s\<lparr>item_ownership_flags :=
                     map (\<lambda>x. if ?vis x then x\<lparr>fl_status := Flag_confirmed, fl_resolved_at := Some now\<rparr>
                               else x) (item_ownership_flags s)\<rparr>) s1 \<and>
              resolveFlag s (fl_id f) owner Decide_confirmed now =
                  Inr (handle_ownership_flag_confirmed s1 f
                         (f\<lparr>fl_status := Flag_confirmed, fl_resolved_at := Some now\<rparr>))"
      .
    then obtain s1
      where n: "only_notifies
                (s\<lparr>item_ownership_flags :=
                     map (\<lambda>x. if ?vis x then x\<lparr>fl_status := Flag_confirmed, fl_resolved_at := Some now\<rparr>
                               else x) (item_ownership_flags s)\<rparr>) s1"
        and r: "resolveFlag s (fl_id f) owner Decide_confirmed now =
                  Inr (handle_ownership_flag_confirmed s1 f
                         (f\<lparr>fl_status := Flag_confirmed, fl_resolved_at := Some now\<rparr>))"
      by blast
    note t = only_notifies_tables[OF n]
    let ?s' = "handle_ownership_flag_confirmed s1 f (f\<lparr>fl_status := Flag_confirmed, fl_resolved_at := Some now\<rparr>)"
    have 1: "item_claims ?s' = filter (\<lambda>c. ic_item_id c \<noteq> fl_item_id f) (item_claims s)"
      using t(6) by (simp add: handle_ownership_flag_confirmed_def assms(3) delete_split_claims_tables)
    have 2: "split_claims ?s' = filter (\<lambda>sc. sc_item_id sc \<noteq> fl_item_id f) (split_claims s)"
      using t(7) by (simp add: handle_ownership_flag_confirmed_def assms(3) delete_split_claims_tables)
    have 3: "item_ownership_flags ?s' = item_ownership_flags s1"
      by (simp add: handle_ownership_flag_confirmed_def assms(3) delete_split_claims_tables)
    have 4: "f\<lparr>fl_status := Flag_confirmed, fl_resolved_at := Some now\<rparr> \<in> set (item_ownership_flags ?s')"
      using upd[of Flag_confirmed] by (simp add: 3 t(9))
    have 5: "active_solo_claims ?s' (fl_item_id f) = []"
      by (simp add: active_solo_claims_def 1 filter_empty_conv)
    have 6: "active_split_claims ?s' (fl_item_id f) = []"
      by (simp add: active_split_claims_def 2 filter_empty_conv)
    from r 1 2 4 5 6
    show "\<exists>s'. resolveFlag s (fl_id f) owner Decide_confirmed now = Inr s' \<and>
            f\<lparr>fl_status := Flag_confirmed, fl_resolved_at := Some now\<rparr> \<in> set (item_ownership_flags s') \<and>
            item_claims s' = filter (\<lambda>c. ic_item_id c \<noteq> fl_item_id f) (item_claims s) \<and>
            split_claims s' = filter (\<lambda>sc. sc_item_id sc \<noteq> fl_item_id f) (split_claims s) \<and>
            active_solo_claims s' (fl_item_id f) = [] \<and>
            active_split_claims s' (fl_item_id f) = []"
      by blast
  }
  {
    from resolveFlag_pending[OF assms, where decision = Decide_denied and now = now, unfolded decided_status.simps]
    have "\<exists>s1. only_notifies
                (s\<lparr>item_ownership_flags :=
                     map (\<lambda>x. if ?vis x then x\<lparr>fl_status := Flag_denied, fl_resolved_at := Some now\<rparr>
                               else x) (item_ownership_flags s)\<rparr>) s1 \<and>
              resolveFlag s (fl_id f) owner Decide_denied now =
                  Inr (handle_ownership_flag_confirmed s1 f
                         (f\<lparr>fl_status := Flag_denied, fl_resolved_at := Some now\<rparr>))"
      .
    then obtain s1
      where n: "only_notifies
                (s\<lparr>item_ownership_flags :=
                     map (\<lambda>x. if ?vis x then x\<lparr>fl_status := Flag_denied, fl_resolved_at := Some now\<rparr>
                               else x) (item_ownership_flags s)\<rparr>) s1"
        and r: "resolveFlag s (fl_id f) owner Decide_denied now =
                  Inr (handle_ownership_flag_confirmed s1 f
                         (f\<lparr>fl_status := Flag_denied, fl_resolved_at := Some now\<rparr>))"
      by blast
    note t = only_notifies_tables[OF n]
    have same: "handle_ownership_flag_confirmed s1 f (f\<lparr>fl_status := Flag_denied, fl_resolved_at := Some now\<rparr>) = s1"
      by (simp add: handle_ownership_flag_confirmed_def)
    from r upd[of Flag_denied] t(6-9)
    show "\<exists>s'. resolveFlag s (fl_id f) owner Decide_denied now = Inr s' \<and>
            f\<lparr>fl_status := Flag_denied, fl_resolved_at := Some now\<rparr> \<in> set (item_ownership_flags s') \<and>
            item_claims s' = item_claims s \<and> split_claims s' = split_claims s \<and>
            split_claim_participants s' = split_claim_participants s"
      by (simp add: same)
  }
qed

text \<open>Ann resolves Cy's flag on the book, once with Bob's solo claim and once with his split.\<close>

theorem resolve_flag_cancels_claims_witness:
  "reachable ex_flagged \<and> reachable ex_flagged_split \<and>
   map ic_status (item_claims ex_flagged) = [Active] \<and>
   map sc_claim_status (split_claims ex_flagged_split) = [Active] \<and>
   (\<exists>s'. resolveFlag ex_flagged 700 1 Decide_confirmed 9 = Inr s' \<and> item_claims s' = []) \<and>
   (\<exists>s'. resolveFlag ex_flagged_split 700 1 Decide_confirmed 9 = Inr s' \<and> split_claims s' = []) \<and>
   (\<exists>s'. resolveFlag ex_flagged 700 1 Decide_denied 9 = Inr s' \<and>
         item_claims s' = item_claims ex_flagged) \<and>
   (\<exists>s'. resolveFlag ex_flagged_split 700 1 Decide_denied 9 = Inr s' \<and>
         split_claims s' = split_claims ex_flagged_split \<and>
         split_claim_participants s' = split_claim_participants ex_flagged_split)"
proof -
  let ?f = "\<lparr>fl_id = 700, fl_item_id = 100, fl_flagged_by = 3, fl_status = Flag_pending,
             fl_resolved_at = None\<rparr>"
  have r1: "reachable ex_flagged"
    unfolding ex_flagged_def ex_claimed_def by (intro reachable_run reachable_ex_db)
  have r2: "reachable ex_flagged_split"
    unfolding ex_flagged_split_def ex_split_def by (intro reachable_run reachable_ex_db)
  have t1: "item_ownership_flags ex_flagged = [?f]"
    "map ic_status (item_claims ex_flagged) = [Active]" "map ic_item_id (item_claims ex_flagged) = [100]"
    "item_owner ex_flagged 100 = Some 1" "map fst (profiles ex_flagged) = [1, 2, 3]"
    by code_simp+
  have t2: "item_ownership_flags ex_flagged_split = [?f]"
    "map sc_claim_status (split_claims ex_flagged_split) = [Active]"
    "map sc_item_id (split_claims ex_flagged_split) = [100]"
    "item_owner ex_flagged_split 100 = Some 1" "map fst (profiles ex_flagged_split) = [1, 2, 3]"
    by code_simp+
  have image: "fst ` set xs = set (map fst xs)" for xs :: "(uuid \<times> string option) list" by simp
  have h1: "?f \<in> set (item_ownership_flags ex_flagged)" "fl_status ?f = Flag_pending"
    "item_owner ex_flagged (fl_item_id ?f) = Some 1" "1 \<in> fst ` set (profiles ex_flagged)"
    by (simp_all add: image t1 del: set_map)
  have h2: "?f \<in> set (item_ownership_flags ex_flagged_split)" "fl_status ?f = Flag_pending"
    "item_owner ex_flagged_split (fl_item_id ?f) = Some 1" "1 \<in> fst ` set (profiles ex_flagged_split)"
    by (simp_all add: image t2 del: set_map)
  have e1: "filter (\<lambda>c. ic_item_id c \<noteq> 100) (item_claims ex_flagged) = []"
  proof -
    have "\<forall>c\<in>set (item_claims ex_flagged). ic_item_id c \<in> set (map ic_item_id (item_claims ex_flagged))"
      by simp
    then show ?thesis unfolding t1 by (simp add: filter_empty_conv)
  qed
  have e2: "filter (\<lambda>sc. sc_item_id sc \<noteq> 100) (split_claims ex_flagged_split) = []"
  proof -
    have "\<forall>c\<in>set (split_claims ex_flagged_split). sc_item_id c \<in> set (map sc_item_id (split_claims ex_flagged_split))"
      by simp
    then show ?thesis unfolding t2 by (simp add: filter_empty_conv)
  qed
  note w1 = resolve_flag_cancels_claims[OF r1 h1, of 9]
  note w2 = resolve_flag_cancels_claims[OF r2 h2, of 9]
  from w1[THEN conjunct1] have a: "\<exists>s'. resolveFlag ex_flagged 700 1 Decide_confirmed 9 = Inr s' \<and> item_claims s' = []"
    by (auto simp: e1)
  from w2[THEN conjunct1] have b: "\<exists>s'. resolveFlag ex_flagged_split 700 1 Decide_confirmed 9 = Inr s' \<and> split_claims s' = []"
    by (auto simp: e2)
  from w1[THEN conjunct2] have c: "\<exists>s'. resolveFlag ex_flagged 700 1 Decide_denied 9 = Inr s' \<and>
         item_claims s' = item_claims ex_flagged"
    by auto
  from w2[THEN conjunct2] have d: "\<exists>s'. resolveFlag ex_flagged_split 700 1 Decide_denied 9 = Inr s' \<and>
         split_claims s' = split_claims ex_flagged_split \<and>
         split_claim_participants s' = split_claim_participants ex_flagged_split"
    by auto
  from r1 r2 t1(2) t2(2) a b c d show ?thesis by (intro conjI)
qed

subsection \<open>Starting a split: who is notified\<close>

lemma distinct_map_coarser:
  assumes "distinct (map k xs)"
    and "\<And>x y. x \<in> set xs \<Longrightarrow> y \<in> set xs \<Longrightarrow> h x = h y \<Longrightarrow> k x = k y"
  shows "distinct (map h xs)"
  using assms
proof (induction xs)
  case Nil
  then show ?case by simp
next
  case (Cons a xs)
  have "h a \<notin> h ` set xs"
  proof
    assume "h a \<in> h ` set xs"
    then obtain y where y: "y \<in> set xs" "h a = h y" by auto
    then have "k a = k y" by (intro Cons.prems(2)) simp_all
    with y(1) Cons.prems(1) show False by (auto simp: image_iff)
  qed
  moreover have "distinct (map h xs)"
    using Cons.prems by (intro Cons.IH) simp_all
  ultimately show ?case by simp
qed

lemma friends_of_initiator:
  "friend_id initiator `
     {f \<in> set (friendships s). f_status f = ''accepted'' \<and>
        (f_requester_id f = initiator \<or> f_addressee_id f = initiator) \<and>
        friend_id initiator f \<noteq> owner} =
   {u. are_friends s (Some initiator) (Some u) \<and> u \<noteq> owner}"
proof (intro set_eqI iffI)
  fix u
  assume "u \<in> friend_id initiator `
     {f \<in> set (friendships s). f_status f = ''accepted'' \<and>
        (f_requester_id f = initiator \<or> f_addressee_id f = initiator) \<and>
        friend_id initiator f \<noteq> owner}"
  then obtain f where f: "f \<in> set (friendships s)" "f_status f = ''accepted''"
    "f_requester_id f = initiator \<or> f_addressee_id f = initiator"
    "friend_id initiator f \<noteq> owner" "u = friend_id initiator f"
    by auto
  from f(3,5) have "(f_requester_id f = initiator \<and> f_addressee_id f = u) \<or>
                    (f_requester_id f = u \<and> f_addressee_id f = initiator)"
    by (auto simp: friend_id_def split: if_splits)
  with f(1,2) have "are_friends s (Some initiator) (Some u)"
    unfolding are_friends_def list_ex_iff by (intro bexI[of _ f]) auto
  with f(4,5) show "u \<in> {u. are_friends s (Some initiator) (Some u) \<and> u \<noteq> owner}" by simp
next
  fix u
  assume "u \<in> {u. are_friends s (Some initiator) (Some u) \<and> u \<noteq> owner}"
  then obtain f where f: "f \<in> set (friendships s)" "f_status f = ''accepted''"
    "(f_requester_id f = initiator \<and> f_addressee_id f = u) \<or>
     (f_requester_id f = u \<and> f_addressee_id f = initiator)"
    and u: "u \<noteq> owner"
    by (auto simp: are_friends_def list_ex_iff)
  from f(3) have "friend_id initiator f = u" by (auto simp: friend_id_def)
  with f u show "u \<in> friend_id initiator `
     {f \<in> set (friendships s). f_status f = ''accepted'' \<and>
        (f_requester_id f = initiator \<or> f_addressee_id f = initiator) \<and>
        friend_id initiator f \<noteq> owner}"
    by (intro image_eqI[of _ _ f]) auto
qed

lemma one_friend_one_row:
  assumes "one_friendship_per_pair s"
  shows "distinct (map (friend_id initiator)
           (filter (\<lambda>f. f_status f = ''accepted'' \<and>
                        (f_requester_id f = initiator \<or> f_addressee_id f = initiator) \<and> P f)
              (friendships s)))"
proof (rule distinct_map_coarser)
  let ?pair = "\<lambda>f. (min (f_requester_id f) (f_addressee_id f), max (f_requester_id f) (f_addressee_id f))"
  show "distinct (map ?pair (filter (\<lambda>f. f_status f = ''accepted'' \<and>
                        (f_requester_id f = initiator \<or> f_addressee_id f = initiator) \<and> P f)
              (friendships s)))"
    using assms unfolding one_friendship_per_pair_def by (rule distinct_map_filter)
  fix x y
  assume "x \<in> set (filter (\<lambda>f. f_status f = ''accepted'' \<and>
                        (f_requester_id f = initiator \<or> f_addressee_id f = initiator) \<and> P f)
              (friendships s))"
    and "y \<in> set (filter (\<lambda>f. f_status f = ''accepted'' \<and>
                        (f_requester_id f = initiator \<or> f_addressee_id f = initiator) \<and> P f)
              (friendships s))"
    and "friend_id initiator x = friend_id initiator y"
  then show "?pair x = ?pair y"
    by (auto simp: friend_id_def min_def max_def split: if_splits)
qed

lemma create_split_initiated_notification_users:
  assumes "item_owner s (sc_item_id NEW) = Some owner"
  shows "\<exists>ns. create_split_initiated_notification s NEW = s\<lparr>notifications := notifications s @ ns\<rparr> \<and>
           (\<forall>n\<in>set ns. n_type n = Split_initiated \<and> n_split_claim_id n = Some (sc_id NEW)) \<and>
           map n_user_id ns =
             map (friend_id (sc_initiated_by NEW))
               (filter (\<lambda>f. f_status f = ''accepted'' \<and>
                            (f_requester_id f = sc_initiated_by NEW \<or>
                             f_addressee_id f = sc_initiated_by NEW) \<and>
                            friend_id (sc_initiated_by NEW) f \<noteq> owner)
                  (friendships s))"
proof -
  from assms have o: "map_option wishlist_owner_id (select_into (get_split_claim_item_info s (sc_item_id NEW))) = Some owner"
    by (simp add: item_owner_def)
  show ?thesis
    unfolding create_split_initiated_notification_def Let_def o
    by (intro exI conjI, rule refl) (simp_all add: o_def)
qed


lemma check_split_claim_completion_unchanged:
  assumes "\<not> reaches_target s (scp_split_claim_id NEW)"
  shows "check_split_claim_completion s NEW now = s"
  using assms
  by (auto simp: check_split_claim_completion_def reaches_target_def Let_def split: option.splits)

lemma initiateSplit_state:
  assumes "consistent s" and "initiateSplit s item u target n now = Inr s'"
  shows "s' = (create_split_initiated_notification
                 (s\<lparr>split_claims := split_claims s @
                      [\<lparr>sc_id = n, sc_item_id = item, sc_initiated_by = u,
                        sc_target_participants = target, sc_status = Pending,
                        sc_claim_status = Active, sc_confirmed_at = None, sc_fulfilled_at = None\<rparr>]\<rparr>)
                 \<lparr>sc_id = n, sc_item_id = item, sc_initiated_by = u,
                  sc_target_participants = target, sc_status = Pending,
                  sc_claim_status = Active, sc_confirmed_at = None, sc_fulfilled_at = None\<rparr>)
              \<lparr>split_claim_participants := split_claim_participants s @
                 [\<lparr>scp_split_claim_id = n, scp_user_id = u\<rparr>]\<rparr>"
    and "viewable_item_of_other s item u"
proof -
  let ?new = "\<lparr>sc_id = n, sc_item_id = item, sc_initiated_by = u, sc_target_participants = target,
               sc_status = Pending, sc_claim_status = Active, sc_confirmed_at = None,
               sc_fulfilled_at = None\<rparr>"
  let ?p = "\<lparr>scp_split_claim_id = n, scp_user_id = u\<rparr>"
  from assms(2) have t: "2 \<le> target"
    by (auto simp: initiateSplit_def split: if_splits)
  with assms(2) obtain s1 where 1: "insert_split_claim s u ?new = Inr s1"
    and 2: "insert_split_claim_participant s1 u ?p now = Inr s'"
    by (auto simp: initiateSplit_def split: if_splits sum.splits)
  note e1 = insert_split_claim_Inr[OF 1]
  from e1(12) show "viewable_item_of_other s item u" by simp
  from 1 have s1: "s1 = create_split_initiated_notification (s\<lparr>split_claims := split_claims s @ [?new]\<rparr>) ?new"
    by (auto simp: insert_split_claim_def split: option.splits if_splits)
  let ?s2 = "s1\<lparr>split_claim_participants := split_claim_participants s1 @ [?p]\<rparr>"
  from 2 have s': "s' = create_split_joined_notification (check_split_claim_completion ?s2 ?p now) ?p"
    by (auto simp: insert_split_claim_participant_def split: if_splits)
  have c1: "consistent s1"
    by (rule insert_split_claim_consistent[OF assms(1) 1]) (use t in simp_all)
  have "participant_count s n = 0"
    using e1(13) by (intro participant_count_fresh consistentD(6)[OF assms(1)]) simp
  then have cnt: "participant_count ?s2 n = 1"
    by (simp add: participant_count_def e1(3))
  have pk: "split_claims_pkey ?s2" using consistentD(4)[OF c1] by (simp add: split_claims_pkey_def)
  have mem: "?new \<in> set (split_claims ?s2)" by (simp add: e1(1))
  from reaches_target_by_key[OF pk mem] cnt t have "\<not> reaches_target ?s2 (scp_split_claim_id ?p)" by simp
  then have chk: "check_split_claim_completion ?s2 ?p now = ?s2"
    by (rule check_split_claim_completion_unchanged)
  from pk mem have "select_into (filter (\<lambda>x. sc_id x = sc_id ?new) (split_claims ?s2)) = Some ?new"
    unfolding split_claims_pkey_def by (rule select_into_by_key)
  then have "create_split_joined_notification ?s2 ?p = ?s2"
    by (simp add: create_split_joined_notification_def)
  with s' chk have "s' = ?s2" by simp
  moreover have "split_claim_participants s1 = split_claim_participants s" by (rule e1(3))
  ultimately show "s' = (create_split_initiated_notification
                 (s\<lparr>split_claims := split_claims s @ [?new]\<rparr>) ?new)
              \<lparr>split_claim_participants := split_claim_participants s @ [?p]\<rparr>"
    by (simp add: s1)
qed

lemma length_filter_of_map: "length (filter P (map h xs)) = length (filter (\<lambda>x. P (h x)) xs)"
  by (induction xs) simp_all

lemma friend_rows_of:
  assumes "u \<noteq> owner"
  shows "filter (\<lambda>f. friend_id initiator f = u)
           (filter (\<lambda>f. f_status f = ''accepted'' \<and>
                        (f_requester_id f = initiator \<or> f_addressee_id f = initiator) \<and>
                        friend_id initiator f \<noteq> owner) fs) =
         filter (\<lambda>f. f_status f = ''accepted'' \<and>
                 ((f_requester_id f = initiator \<and> f_addressee_id f = u) \<or>
                  (f_requester_id f = u \<and> f_addressee_id f = initiator))) fs"
proof -
  have "(f_status f = ''accepted'' \<and>
          (f_requester_id f = initiator \<or> f_addressee_id f = initiator) \<and>
          friend_id initiator f \<noteq> owner) \<and> friend_id initiator f = u \<longleftrightarrow>
        f_status f = ''accepted'' \<and>
          ((f_requester_id f = initiator \<and> f_addressee_id f = u) \<or>
           (f_requester_id f = u \<and> f_addressee_id f = initiator))" for f
    using assms by (auto simp: friend_id_def)
  then show ?thesis unfolding filter_filter by simp
qed

text \<open>
  Claim C7. In a reachable state, when \<open>initiateSplit\<close> succeeds, the item has an owner
  and the step appends notifications \<open>ns\<close>, all of type \<open>split_initiated\<close> for the new
  split claim. The users they go to are exactly the accepted friends of the initiator other
  than the owner of the wishlist: the owner gets none, and a friend who cannot view the
  item is notified all the same. The trigger \<open>create_split_initiated_notification\<close>
  inserts one notification for every accepted row of \<open>friendships\<close> with the initiator
  on one side, so a friend gets as many as there are accepted rows between the two: one
  when there is one row, and nobody gets two when no two users have two rows.
\<close>

theorem split_initiated_recipients:
  assumes "reachable s" and "initiateSplit s item initiator target new_id now = Inr s'"
  shows "\<exists>owner ns. item_owner s item = Some owner \<and>
           notifications s' = notifications s @ ns \<and>
           (\<forall>n\<in>set ns. n_type n = Split_initiated \<and> n_split_claim_id n = Some new_id) \<and>
           set (map n_user_id ns) = {u. are_friends s (Some initiator) (Some u) \<and> u \<noteq> owner} \<and>
           owner \<notin> set (map n_user_id ns) \<and>
           (\<forall>u. are_friends s (Some initiator) (Some u) \<and> u \<noteq> owner \<and> \<not> can_view_item s item u \<longrightarrow>
                u \<in> set (map n_user_id ns)) \<and>
           (\<forall>u. u \<noteq> owner \<longrightarrow>
                length (filter (\<lambda>n. n_user_id n = u) ns) =
                length (accepted_friendships s initiator u)) \<and>
           (one_friendship_per_pair s \<longrightarrow> distinct (map n_user_id ns))"
proof -
  let ?new = "\<lparr>sc_id = new_id, sc_item_id = item, sc_initiated_by = initiator,
               sc_target_participants = target, sc_status = Pending, sc_claim_status = Active,
               sc_confirmed_at = None, sc_fulfilled_at = None\<rparr>"
  let ?s0 = "s\<lparr>split_claims := split_claims s @ [?new]\<rparr>"
  from assms(1) have cons: "consistent s" by (rule reachable_consistent)
  from assms(1) have keys: "catalogue_keys s" by (rule reachable_catalogue_keys)
  note st = initiateSplit_state[OF cons assms(2)]
  from st(2) obtain owner where owner: "item_owner s item = Some owner"
    by (auto simp: viewable_item_of_other_iff[OF keys])
  have "same_surroundings s ?s0" by (simp add: same_surroundings_def)
  then have "item_owner ?s0 (sc_item_id ?new) = Some owner"
    using owner by (simp add: same_surroundings_visibility)
  from create_split_initiated_notification_users[OF this]
  obtain ns where ns: "create_split_initiated_notification ?s0 ?new = ?s0\<lparr>notifications := notifications ?s0 @ ns\<rparr>"
    "\<forall>n\<in>set ns. n_type n = Split_initiated \<and> n_split_claim_id n = Some new_id"
    "map n_user_id ns =
       map (friend_id initiator)
         (filter (\<lambda>f. f_status f = ''accepted'' \<and>
                      (f_requester_id f = initiator \<or> f_addressee_id f = initiator) \<and>
                      friend_id initiator f \<noteq> owner) (friendships s))"
    by auto
  from st(1) ns(1) have n: "notifications s' = notifications s @ ns" by simp
  have users: "set (map n_user_id ns) = {u. are_friends s (Some initiator) (Some u) \<and> u \<noteq> owner}"
    unfolding ns(3) set_map set_filter by (rule friends_of_initiator)
  have d: "distinct (map n_user_id ns)" if "one_friendship_per_pair s"
    unfolding ns(3) using that by (rule one_friend_one_row)
  have c: "length (filter (\<lambda>n. n_user_id n = u) ns) = length (accepted_friendships s initiator u)"
    if "u \<noteq> owner" for u
  proof -
    have "length (filter (\<lambda>n. n_user_id n = u) ns) = length (filter (\<lambda>x. x = u) (map n_user_id ns))"
      by (simp only: length_filter_of_map)
    also have "\<dots> = length (filter (\<lambda>f. friend_id initiator f = u)
           (filter (\<lambda>f. f_status f = ''accepted'' \<and>
                        (f_requester_id f = initiator \<or> f_addressee_id f = initiator) \<and>
                        friend_id initiator f \<noteq> owner) (friendships s)))"
      unfolding ns(3) by (simp only: length_filter_of_map)
    also have "\<dots> = length (accepted_friendships s initiator u)"
      unfolding accepted_friendships_def by (simp only: friend_rows_of[OF that])
    finally show ?thesis .
  qed
  from owner n ns(2) users d c show ?thesis
    by (intro exI[of _ owner] exI[of _ ns]) simp
qed

text \<open>
  Bob starts the split for Ann's book. His accepted friends are Ann, Cy and Dan; Dan is no
  friend of Ann's and cannot view her wishlist. Cy and Dan are notified, once each, and Ann
  is not.
\<close>

theorem split_initiated_recipients_witness:
  "reachable ex_db \<and> initiateSplit ex_db 100 2 2 500 7 = Inr ex_split \<and>
   item_owner ex_db 100 = Some 1 \<and> one_friendship_per_pair ex_db \<and>
   are_friends ex_db (Some 2) (Some 1) \<and>
   are_friends ex_db (Some 2) (Some 4) \<and> \<not> can_view_item ex_db 100 4 \<and>
   notifications ex_db = [] \<and>
   map n_user_id (notifications ex_split) = [3, 4] \<and>
   set (map n_user_id (notifications ex_split)) =
     {u. are_friends ex_db (Some 2) (Some u) \<and> u \<noteq> 1} \<and>
   length (accepted_friendships ex_db 2 4) = 1 \<and>
   length (filter (\<lambda>n. n_user_id n = 4) (notifications ex_split)) = 1 \<and>
   distinct (map n_user_id (notifications ex_split)) \<and>
   map n_type (notifications ex_split) = [Split_initiated, Split_initiated] \<and>
   map n_split_claim_id (notifications ex_split) = [Some 500, Some 500]"
proof -
  have r: "reachable ex_db" by (rule reachable_ex_db)
  have i: "initiateSplit ex_db 100 2 2 500 7 = Inr ex_split" by code_simp
  have o: "item_owner ex_db 100 = Some 1" by code_simp
  have p: "one_friendship_per_pair ex_db" by code_simp
  have f: "are_friends ex_db (Some 2) (Some 1)" "are_friends ex_db (Some 2) (Some 4)"
    "\<not> can_view_item ex_db 100 4" by code_simp+
  have n0: "notifications ex_db = []" by (simp add: ex_db_def)
  have n1: "map n_user_id (notifications ex_split) = [3, 4]" by code_simp
  have a: "length (accepted_friendships ex_db 2 4) = 1" by code_simp
  from split_initiated_recipients[OF r i]
  obtain owner ns where w: "item_owner ex_db 100 = Some owner"
    "notifications ex_split = notifications ex_db @ ns"
    "set (map n_user_id ns) = {u. are_friends ex_db (Some 2) (Some u) \<and> u \<noteq> owner}"
    "\<forall>u. u \<noteq> owner \<longrightarrow>
        length (filter (\<lambda>n. n_user_id n = u) ns) = length (accepted_friendships ex_db 2 u)"
    "one_friendship_per_pair ex_db \<longrightarrow> distinct (map n_user_id ns)"
    by blast
  from w(1) o have ow: "owner = 1" by simp
  from w(2) n0 have ns: "ns = notifications ex_split" by simp
  from w(3) have s: "set (map n_user_id (notifications ex_split)) =
     {u. are_friends ex_db (Some 2) (Some u) \<and> u \<noteq> 1}"
    unfolding ns ow .
  from w(4)[rule_format, of 4] have c: "length (filter (\<lambda>n. n_user_id n = 4) (notifications ex_split)) = 1"
    unfolding ns ow a by simp
  from w(5) p have d: "distinct (map n_user_id (notifications ex_split))"
    unfolding ns by simp
  have t: "map n_type (notifications ex_split) = [Split_initiated, Split_initiated]"
    "map n_split_claim_id (notifications ex_split) = [Some 500, Some 500]"
    by code_simp+
  from r i o p f n0 n1 s a c d t show ?thesis by (intro conjI)
qed

text \<open>
  "Each receiving one notification" fails where two users have two accepted rows. Bob and
  Cy have each sent the other a request, and both were accepted: when Bob starts the split,
  Cy is notified twice.
\<close>

theorem split_initiated_twice:
  "reachable ex_db2 \<and> initiateSplit ex_db2 100 2 2 500 7 = Inr ex_split2 \<and>
   item_owner ex_db2 100 = Some 1 \<and> are_friends ex_db2 (Some 2) (Some 3) \<and>
   notifications ex_db2 = [] \<and>
   map n_user_id (notifications ex_split2) = [3, 4, 3] \<and>
   \<not> distinct (map n_user_id (notifications ex_split2)) \<and>
   map n_type (notifications ex_split2) = [Split_initiated, Split_initiated, Split_initiated]"
proof -
  have "reachable ex_db2"
    by (rule reachable.initial) (simp_all add: ex_db2_def ex_db_def catalogue_keys_def)
  moreover have "initiateSplit ex_db2 100 2 2 500 7 = Inr ex_split2" by code_simp
  moreover have "item_owner ex_db2 100 = Some 1" by code_simp
  moreover have "are_friends ex_db2 (Some 2) (Some 3)" by code_simp
  moreover have "notifications ex_db2 = []" by (simp add: ex_db2_def ex_db_def)
  moreover have "map n_user_id (notifications ex_split2) = [3, 4, 3]" by code_simp
  moreover have "\<not> distinct (map n_user_id (notifications ex_split2))" by code_simp
  moreover have "map n_type (notifications ex_split2) =
      [Split_initiated, Split_initiated, Split_initiated]" by code_simp
  ultimately show ?thesis by (intro conjI)
qed

subsection \<open>Creating an ownership flag\<close>

lemma decided_status_not_pending [simp]: "decided_status d \<noteq> Flag_pending"
  by (cases d) simp_all

lemma exec_item_ownership_flags:
  assumes "exec s operation = Inr s'"
  shows "item_ownership_flags s' = item_ownership_flags s \<or>
         (\<exists>new. item_ownership_flags s' = item_ownership_flags s @ [new]) \<or>
         (\<exists>P d now. item_ownership_flags s' =
             map (\<lambda>f. if P f then f\<lparr>fl_status := decided_status d, fl_resolved_at := Some now\<rparr> else f)
               (item_ownership_flags s)) \<or>
         (\<exists>flag uid. item_ownership_flags s' =
             filter (\<lambda>f. \<not> (fl_id f = flag \<and> uid = fl_flagged_by f \<and> fl_status f = Flag_pending))
               (item_ownership_flags s))"
proof (cases operation)
  case (CreateSoloClaim item claimer new_id)
  with assms have "createSoloClaim s item claimer new_id = Inr s'" by simp
  from createSoloClaim_Inr(1)[OF this] show ?thesis by simp
next
  case (CancelSoloClaim claim caller)
  with assms have "cancelSoloClaim s claim caller = Inr s'" by simp
  from cancelSoloClaim_Inr[OF this] show ?thesis by simp
next
  case (Unclaim uid claim)
  with assms show ?thesis by (auto simp: delete_item_claim_def)
next
  case (InitiateSplit item initiator target new_id now)
  with assms obtain s1 new where 1: "insert_split_claim s initiator new = Inr s1"
    and 2: "insert_split_claim_participant s1 initiator
              \<lparr>scp_split_claim_id = new_id, scp_user_id = initiator\<rparr> now = Inr s'"
    by (auto simp: initiateSplit_def split: if_splits sum.splits)
  from insert_split_claim_Inr(4)[OF 1] insert_split_claim_participant_Inr(4)[OF 2]
  show ?thesis by simp
next
  case (JoinSplit split user now)
  with assms have "insert_split_claim_participant s user
      \<lparr>scp_split_claim_id = split, scp_user_id = user\<rparr> now = Inr s'"
    by (simp add: joinSplit_def)
  from insert_split_claim_participant_Inr(4)[OF this] show ?thesis by simp
next
  case (LeaveSplit split user)
  with assms have "item_ownership_flags s' = item_ownership_flags s"
    by (auto simp: leaveSplit_def delete_split_claim_def
        delete_split_claims_tables delete_split_claim_participant_tables
        split: option.splits if_splits)
  then show ?thesis by simp
next
  case (FulfillClaimsForItem item owner now)
  with assms obtain rows where "fulfill_claims_for_item s item owner now = Inr (s', rows)"
    by (auto split: sum.splits prod.splits)
  from fulfill_claims_for_item_frame(2)[OF this] show ?thesis by simp
next
  case (CreateFlag item flagger new_id)
  with assms have "insert_item_ownership_flag s flagger
      \<lparr>fl_id = new_id, fl_item_id = item, fl_flagged_by = flagger,
       fl_status = Flag_pending, fl_resolved_at = None\<rparr> = Inr s'"
    by (simp add: createFlag_def)
  from insert_item_ownership_flag_Inr(1)[OF this]
  have "\<exists>new. item_ownership_flags s' = item_ownership_flags s @ [new]"
    by (rule exI)
  then show ?thesis by (intro disjI2 disjI1)
next
  case (ResolveFlag flag owner decision now)
  with assms have "resolveFlag s flag owner decision now = Inr s'" by simp
  from resolveFlag_frame(2)[OF this]
  have "\<exists>P d now. item_ownership_flags s' =
             map (\<lambda>f. if P f then f\<lparr>fl_status := decided_status d, fl_resolved_at := Some now\<rparr> else f)
               (item_ownership_flags s)"
    by (intro exI[of _ "\<lambda>f. fl_id f = flag \<and> owners_can_update_flags_on_their_items s owner f"]
        exI[of _ decision] exI[of _ now])
  then show ?thesis by (intro disjI2 disjI1)
next
  case (DeleteFlag flag uid)
  with assms have "item_ownership_flags s' =
      filter (\<lambda>f. \<not> (fl_id f = flag \<and> uid = fl_flagged_by f \<and> fl_status f = Flag_pending))
        (item_ownership_flags s)"
    by (auto simp: deleteFlag_def Let_def)
  then have "\<exists>flag uid. item_ownership_flags s' =
      filter (\<lambda>f. \<not> (fl_id f = flag \<and> uid = fl_flagged_by f \<and> fl_status f = Flag_pending))
        (item_ownership_flags s)"
    by (intro exI[of _ flag] exI[of _ uid])
  then show ?thesis by (intro disjI2)
qed


lemma exec_keeps_resolved_flag:
  assumes "g \<in> set (item_ownership_flags s)" and "fl_status g \<noteq> Flag_pending"
    and "exec s operation = Inr s'"
  shows "\<exists>g'\<in>set (item_ownership_flags s'). fl_item_id g' = fl_item_id g \<and>
           fl_flagged_by g' = fl_flagged_by g \<and> fl_status g' \<noteq> Flag_pending"
proof -
  from exec_item_ownership_flags[OF assms(3)]
  consider (same) "item_ownership_flags s' = item_ownership_flags s"
    | (app) new where "item_ownership_flags s' = item_ownership_flags s @ [new]"
    | (upd) P d now where "item_ownership_flags s' =
             map (\<lambda>f. if P f then f\<lparr>fl_status := decided_status d, fl_resolved_at := Some now\<rparr> else f)
               (item_ownership_flags s)"
    | (del) flag uid where "item_ownership_flags s' =
             filter (\<lambda>f. \<not> (fl_id f = flag \<and> uid = fl_flagged_by f \<and> fl_status f = Flag_pending))
               (item_ownership_flags s)"
    by blast
  then show ?thesis
  proof cases
    case same
    with assms(1,2) show ?thesis by (intro bexI[of _ g]) simp_all
  next
    case app
    with assms(1,2) show ?thesis by (intro bexI[of _ g]) simp_all
  next
    case upd
    let ?u = "\<lambda>f. if P f then f\<lparr>fl_status := decided_status d, fl_resolved_at := Some now\<rparr> else f"
    from assms(1) have "?u g \<in> set (map ?u (item_ownership_flags s))" unfolding set_map by (rule imageI)
    then have "?u g \<in> set (item_ownership_flags s')" unfolding upd .
    moreover have "fl_item_id (?u g) = fl_item_id g" "fl_flagged_by (?u g) = fl_flagged_by g"
      "fl_status (?u g) \<noteq> Flag_pending"
      using assms(2) by simp_all
    ultimately show ?thesis by (intro bexI[of _ "?u g"]) simp_all
  next
    case del
    with assms(1,2) show ?thesis by (intro bexI[of _ g]) simp_all
  qed
qed

lemma happen_keeps_resolved_flag:
  assumes "g \<in> set (item_ownership_flags s)" and "fl_status g \<noteq> Flag_pending"
    and "fl_item_id g = fl_item_id f" and "fl_flagged_by g = fl_flagged_by f"
    and "keeps_flag f e"
  shows "\<exists>g'\<in>set (item_ownership_flags (happen s e)). fl_item_id g' = fl_item_id f \<and>
           fl_flagged_by g' = fl_flagged_by f \<and> fl_status g' \<noteq> Flag_pending"
proof (cases e)
  case (Operation operation)
  show ?thesis
  proof (cases "exec s operation")
    case (Inl err)
    with Operation assms(1-4) show ?thesis by (intro bexI[of _ g]) simp_all
  next
    case (Inr s')
    from exec_keeps_resolved_flag[OF assms(1,2) Inr] assms(3,4) Operation Inr
    show ?thesis by simp
  qed
next
  case (Surroundings ws items fs sel ps)
  with assms(5) have "fl_item_id f \<in> set (map wi_id items)" "fl_flagged_by f \<in> set (map fst ps)"
    by (force simp: list_ex_iff image_iff)+
  with assms(1,3,4) have "g \<in> set (item_ownership_flags (set_surroundings s ws items fs sel ps))"
    unfolding set_surroundings_flags by simp
  with Surroundings assms(2-4) show ?thesis by (intro bexI[of _ g]) simp_all
qed

lemma evolve_keeps_resolved_flag:
  assumes "g \<in> set (item_ownership_flags s)" and "fl_status g \<noteq> Flag_pending"
    and "fl_item_id g = fl_item_id f" and "fl_flagged_by g = fl_flagged_by f"
    and "list_all (keeps_flag f) events"
  shows "\<exists>g'\<in>set (item_ownership_flags (evolve s events)). fl_item_id g' = fl_item_id f \<and>
           fl_flagged_by g' = fl_flagged_by f \<and> fl_status g' \<noteq> Flag_pending"
  using assms
proof (induction events arbitrary: s g)
  case Nil
  then show ?case by (intro bexI[of _ g]) simp_all
next
  case (Cons e events)
  from Cons.prems(5) have k: "keeps_flag f e" "list_all (keeps_flag f) events" by simp_all
  from happen_keeps_resolved_flag[OF Cons.prems(1-4) k(1)]
  obtain g' where g': "g' \<in> set (item_ownership_flags (happen s e))" "fl_item_id g' = fl_item_id f"
    "fl_flagged_by g' = fl_flagged_by f" "fl_status g' \<noteq> Flag_pending"
    by blast
  from Cons.IH[OF g'(1) g'(4) g'(2) g'(3) k(2)] show ?case by simp
qed

lemma createFlag_not_viewable:
  assumes "\<not> viewable_item_of_other s item flagger"
  shows "createFlag s item flagger n = Inl Rls_violation"
  using assms
  by (simp add: createFlag_def insert_item_ownership_flag_def
      users_can_flag_items_on_viewable_wishlists_def)

lemma createFlag_flag_exists:
  assumes "list_ex (\<lambda>f. fl_item_id f = item) (item_ownership_flags s)"
  shows "isl (createFlag s item flagger n)"
  using assms
  by (simp add: createFlag_def insert_item_ownership_flag_def)

text \<open>
  Claim C9. In a reachable state \<open>createFlag\<close> fails for the owner of the item, for a user
  who cannot view the item's wishlist, and when the item has a flag already, whatever its
  status. A resolved flag (confirmed or denied) stays through every operation, and through
  every change of the surroundings that keeps its item and the profile of its flagger: as
  long as these two rows are there the item has a resolved flag, and \<open>createFlag\<close> fails
  for it. The flag goes only by \<open>ON DELETE CASCADE\<close>, with its item or with the profile
  of its flagger.
\<close>

theorem createFlag_fails:
  assumes "reachable s"
  shows "(item_owner s item = Some flagger \<longrightarrow> isl (createFlag s item flagger n)) \<and>
         (\<not> can_view_item s item flagger \<longrightarrow> isl (createFlag s item flagger n)) \<and>
         (list_ex (\<lambda>f. fl_item_id f = item) (item_ownership_flags s) \<longrightarrow>
            isl (createFlag s item flagger n)) \<and>
         (\<forall>f events. f \<in> set (item_ownership_flags s) \<and> fl_item_id f = item \<and>
              fl_status f \<noteq> Flag_pending \<and> list_all (keeps_flag f) events \<longrightarrow>
              resolved_flag_on (evolve s events) item \<and>
              isl (createFlag (evolve s events) item flagger n))"
proof (intro conjI impI allI)
  from assms have keys: "catalogue_keys s" by (rule reachable_catalogue_keys)
  {
    assume "item_owner s item = Some flagger"
    then have "\<not> viewable_item_of_other s item flagger"
      by (simp add: viewable_item_of_other_iff[OF keys])
    then show "isl (createFlag s item flagger n)"
      by (simp add: createFlag_not_viewable)
  }
  {
    assume "\<not> can_view_item s item flagger"
    then have "\<not> viewable_item_of_other s item flagger"
      by (simp add: viewable_item_of_other_iff[OF keys])
    then show "isl (createFlag s item flagger n)"
      by (simp add: createFlag_not_viewable)
  }
  {
    assume "list_ex (\<lambda>f. fl_item_id f = item) (item_ownership_flags s)"
    then show "isl (createFlag s item flagger n)" by (rule createFlag_flag_exists)
  }
  {
    fix f events
    assume a: "f \<in> set (item_ownership_flags s) \<and> fl_item_id f = item \<and>
              fl_status f \<noteq> Flag_pending \<and> list_all (keeps_flag f) events"
    then have "\<exists>g'\<in>set (item_ownership_flags (evolve s events)). fl_item_id g' = fl_item_id f \<and>
           fl_flagged_by g' = fl_flagged_by f \<and> fl_status g' \<noteq> Flag_pending"
      by (intro evolve_keeps_resolved_flag[of f]) simp_all
    with a obtain g' where g': "g' \<in> set (item_ownership_flags (evolve s events))"
      "fl_item_id g' = item" "fl_status g' \<noteq> Flag_pending"
      by auto
    then show r: "resolved_flag_on (evolve s events) item"
      unfolding resolved_flag_on_def list_ex_iff by (intro bexI[of _ g']) simp_all
    from g'(1,2) have "list_ex (\<lambda>f. fl_item_id f = item) (item_ownership_flags (evolve s events))"
      unfolding list_ex_iff by (intro bexI[of _ g']) simp_all
    then show "isl (createFlag (evolve s events) item flagger n)" by (rule createFlag_flag_exists)
  }
qed

text \<open>
  Ann cannot flag her own book, and Dan cannot flag it since he cannot view the wishlist;
  Cy can and does. While Cy's flag is pending Bob cannot add a second one; after Ann has
  denied it, and after more operations and a change of the surroundings that keeps the
  book and Cy's profile, he still cannot.
\<close>

theorem createFlag_fails_witness:
  "reachable ex_db \<and> reachable ex_flagged \<and> reachable ex_resolved \<and>
   createFlag ex_claimed 100 3 700 = Inr ex_flagged \<and>
   item_owner ex_db 100 = Some 1 \<and> isl (createFlag ex_db 100 1 700) \<and>
   \<not> can_view_item ex_db 100 4 \<and> isl (createFlag ex_db 100 4 700) \<and>
   map fl_status (item_ownership_flags ex_flagged) = [Flag_pending] \<and>
   list_ex (\<lambda>f. fl_item_id f = 100) (item_ownership_flags ex_flagged) \<and>
   isl (createFlag ex_flagged 100 2 701) \<and>
   item_ownership_flags ex_resolved =
     [\<lparr>fl_id = 700, fl_item_id = 100, fl_flagged_by = 3, fl_status = Flag_denied,
       fl_resolved_at = Some 9\<rparr>] \<and>
   map fst (profiles ex_later) = [1, 2, 3, 4] \<and>
   resolved_flag_on ex_later 100 \<and>
   isl (createFlag ex_later 100 2 701)"
proof -
  let ?f = "\<lparr>fl_id = 700, fl_item_id = 100, fl_flagged_by = 3, fl_status = Flag_denied,
             fl_resolved_at = Some 9\<rparr>"
  let ?events = "[Operation (DeleteFlag 700 3), Operation (CancelSoloClaim 600 2),
        Surroundings (wishlists ex_db) (wishlist_items ex_db)
          [\<lparr>f_requester_id = 1, f_addressee_id = 2, f_status = ''accepted''\<rparr>,
           \<lparr>f_requester_id = 3, f_addressee_id = 1, f_status = ''accepted''\<rparr>,
           \<lparr>f_requester_id = 2, f_addressee_id = 3, f_status = ''accepted''\<rparr>,
           \<lparr>f_requester_id = 4, f_addressee_id = 2, f_status = ''accepted''\<rparr>]
          [(11, 2)]
          [(1, Some ''Ann''), (2, Some ''Bob''), (3, None), (4, Some ''Dan'')]]"
  have r0: "reachable ex_db" by (rule reachable_ex_db)
  have r1: "reachable ex_flagged"
    unfolding ex_flagged_def ex_claimed_def by (intro reachable_run r0)
  have r2: "reachable ex_resolved"
    unfolding ex_resolved_def by (intro reachable_run r1)
  have c: "createFlag ex_claimed 100 3 700 = Inr ex_flagged" by code_simp
  have o: "item_owner ex_db 100 = Some 1" by code_simp
  have v: "\<not> can_view_item ex_db 100 4" by code_simp
  have p: "map fl_status (item_ownership_flags ex_flagged) = [Flag_pending]" by code_simp
  have e: "list_ex (\<lambda>f. fl_item_id f = 100) (item_ownership_flags ex_flagged)" by code_simp
  have d: "item_ownership_flags ex_resolved = [?f]" by code_simp
  have ps: "map fst (profiles ex_later) = [1, 2, 3, 4]" by code_simp
  have k: "list_all (keeps_flag ?f) ?events" by code_simp
  have l: "evolve ex_resolved ?events = ex_later" by (simp only: ex_later_def)
  note w = createFlag_fails
  from w[OF r0, of 100 1 700, THEN conjunct1] o
  have 1: "isl (createFlag ex_db 100 1 700)" by (rule mp)
  from w[OF r0, of 100 4 700, THEN conjunct2, THEN conjunct1] v
  have 2: "isl (createFlag ex_db 100 4 700)" by (rule mp)
  from w[OF r1, of 100 2 701, THEN conjunct2, THEN conjunct2, THEN conjunct1] e
  have 3: "isl (createFlag ex_flagged 100 2 701)" by (rule mp)
  have h: "?f \<in> set (item_ownership_flags ex_resolved) \<and> fl_item_id ?f = 100 \<and>
           fl_status ?f \<noteq> Flag_pending \<and> list_all (keeps_flag ?f) ?events"
    using k by (simp add: d)
  from w[OF r2, of 100 2 701, THEN conjunct2, THEN conjunct2, THEN conjunct2, rule_format, OF h]
  have 4: "resolved_flag_on ex_later 100" "isl (createFlag ex_later 100 2 701)"
    unfolding l by simp_all
  from r0 r1 r2 c o 1 v 2 p e 3 d ps 4 show ?thesis by (intro conjI)
qed

text \<open>
  "No new flag can ever be created for that item" fails when the flagger's profile is
  deleted. Ann has denied Cy's flag; Cy's account is deleted, the flag goes with the
  profile, and Bob flags the book.
\<close>

theorem createFlag_after_cascade:
  "reachable ex_resolved \<and>
   item_ownership_flags ex_resolved =
     [\<lparr>fl_id = 700, fl_item_id = 100, fl_flagged_by = 3, fl_status = Flag_denied,
       fl_resolved_at = Some 9\<rparr>] \<and>
   resolved_flag_on ex_resolved 100 \<and>
   map fst (profiles ex_resolved) = [1, 2, 3] \<and>
   map fst (profiles ex_gone) = [1, 2] \<and>
   item_ownership_flags ex_gone = [] \<and>
   createFlag ex_gone 100 2 701 = Inr ex_reflagged \<and>
   item_ownership_flags ex_reflagged =
     [\<lparr>fl_id = 701, fl_item_id = 100, fl_flagged_by = 2, fl_status = Flag_pending,
       fl_resolved_at = None\<rparr>]"
proof -
  have "reachable ex_resolved"
    unfolding ex_resolved_def ex_flagged_def ex_claimed_def
    by (intro reachable_run reachable_ex_db)
  moreover have "item_ownership_flags ex_resolved =
     [\<lparr>fl_id = 700, fl_item_id = 100, fl_flagged_by = 3, fl_status = Flag_denied,
       fl_resolved_at = Some 9\<rparr>]" by code_simp
  moreover have "resolved_flag_on ex_resolved 100" by code_simp
  moreover have "map fst (profiles ex_resolved) = [1, 2, 3]" by code_simp
  moreover have "map fst (profiles ex_gone) = [1, 2]" by code_simp
  moreover have "item_ownership_flags ex_gone = []" by code_simp
  moreover have "createFlag ex_gone 100 2 701 = Inr ex_reflagged" by code_simp
  moreover have "item_ownership_flags ex_reflagged =
     [\<lparr>fl_id = 701, fl_item_id = 100, fl_flagged_by = 2, fl_status = Flag_pending,
       fl_resolved_at = None\<rparr>]" by code_simp
  ultimately show ?thesis by (intro conjI)
qed

end
